theory Spec2Isabelle
  imports Complex_Main
begin

text \<open>
  A model of \<^verbatim>\<open>src/Polygon.js\<close>: the class \<^verbatim>\<open>Polygon\<close> with its constructor, \<^verbatim>\<open>update\<close>,
  the getter \<^verbatim>\<open>points\<close> and \<^verbatim>\<open>borderBox\<close>, and the static methods \<^verbatim>\<open>isColliding\<close>,
  \<^verbatim>\<open>pointIsInPolygon\<close> and \<^verbatim>\<open>circleIsInPolygon\<close>.  The file holds the class twice;
  the model follows the second, longer copy (from line 166), and has the first copy's
  \<^verbatim>\<open>isColliding\<close> beside it.  Loops are recursive functions on the loop counter, a
  thrown \<^verbatim>\<open>TypeError\<close> is the value \<open>Inl TypeError\<close>, and a method that changes the
  object returns the changed object.
\<close>

section \<open>JavaScript numbers\<close>

text \<open>
  Every coordinate, pose component and intermediate result of \<^verbatim>\<open>Polygon.js\<close> is a
  JavaScript Number, that is an IEEE 754 binary64 value.  The model keeps the three
  kinds of special value apart from the finite ones and rounds every finite result
  of an arithmetic operation to 53 significant bits, ties to even (\<open>rnd\<close>).  The
  functions \<^verbatim>\<open>Math.sqrt\<close>, \<^verbatim>\<open>Math.cos\<close> and \<^verbatim>\<open>Math.sin\<close> and the constant
  \<^verbatim>\<open>Math.PI\<close> are the rounded exact values; for the cosine and the sine the
  language promises only an approximation, and no theorem below uses a value of
  either but the one at 0.  Two things are left out: the exponent range is unbounded
  (no overflow to an infinity, no gradual underflow), and zero carries no sign.  So
  a theorem states a result of the arithmetic only where these do not matter: either
  its proof uses no property of the operations, or its values are assumed to be in
  the range and on the grid of the format (\<open>binary64\<close> below), or they are the
  small integers of an example.  A value \<open>Fin r\<close> that the program is given is a
  binary64 value.
\<close>

datatype number = Fin real | PosInf | NegInf | NaN

definition rne :: "real \<Rightarrow> int" where
  \<comment> \<open>nearest integer, a tie goes to the even neighbour\<close>
  "rne r = (let f = \<lfloor>r\<rfloor>; d = r - of_int f in
              if d < 1/2 then f
              else if 1/2 < d then f + 1
              else if even f then f else f + 1)"

definition rnd :: "real \<Rightarrow> real" where
  \<comment> \<open>nearest value with a 53-bit significand\<close>
  "rnd r = (if r = 0 then 0
            else let e = \<lfloor>log 2 \<bar>r\<bar>\<rfloor> - 52
                 in of_int (rne (r / 2 powi e)) * 2 powi e)"

definition inf_of_sign :: "real \<Rightarrow> number" where
  "inf_of_sign s = (if s = 0 then NaN else if 0 < s then PosInf else NegInf)"

fun js_sgn :: "number \<Rightarrow> real" where
  "js_sgn (Fin a) = sgn a"
| "js_sgn PosInf = 1"
| "js_sgn NegInf = - 1"
| "js_sgn NaN = 0"

fun js_neg :: "number \<Rightarrow> number" where
  "js_neg (Fin a) = Fin (- a)"
| "js_neg PosInf = NegInf"
| "js_neg NegInf = PosInf"
| "js_neg NaN = NaN"

fun js_add :: "number \<Rightarrow> number \<Rightarrow> number" where
  "js_add (Fin a) (Fin b) = Fin (rnd (a + b))"
| "js_add NaN _ = NaN"
| "js_add _ NaN = NaN"
| "js_add PosInf NegInf = NaN"
| "js_add NegInf PosInf = NaN"
| "js_add PosInf _ = PosInf"
| "js_add _ PosInf = PosInf"
| "js_add NegInf _ = NegInf"
| "js_add _ NegInf = NegInf"

definition js_sub :: "number \<Rightarrow> number \<Rightarrow> number" where
  "js_sub a b = js_add a (js_neg b)"

fun js_mul :: "number \<Rightarrow> number \<Rightarrow> number" where
  "js_mul (Fin a) (Fin b) = Fin (rnd (a * b))"
| "js_mul NaN _ = NaN"
| "js_mul _ NaN = NaN"
| "js_mul a b = inf_of_sign (js_sgn a * js_sgn b)"

fun js_div :: "number \<Rightarrow> number \<Rightarrow> number" where
  "js_div (Fin a) (Fin b) = (if b = 0 then inf_of_sign (sgn a) else Fin (rnd (a / b)))"
| "js_div NaN _ = NaN"
| "js_div _ NaN = NaN"
| "js_div (Fin a) _ = Fin 0"
| "js_div a (Fin b) = inf_of_sign (js_sgn a * (if 0 \<le> b then 1 else - 1))"
| "js_div _ _ = NaN"

fun js_lt :: "number \<Rightarrow> number \<Rightarrow> bool" where
  "js_lt (Fin a) (Fin b) = (a < b)"
| "js_lt NegInf (Fin b) = True"
| "js_lt NegInf PosInf = True"
| "js_lt (Fin a) PosInf = True"
| "js_lt _ _ = False"

definition js_gt :: "number \<Rightarrow> number \<Rightarrow> bool" where
  "js_gt a b = js_lt b a"

definition js_seq :: "number \<Rightarrow> number \<Rightarrow> bool" where
  \<comment> \<open>\<^verbatim>\<open>===\<close> on two Numbers: NaN equals nothing, itself included\<close>
  "js_seq a b = (a \<noteq> NaN \<and> a = b)"

fun js_abs :: "number \<Rightarrow> number" where
  "js_abs (Fin a) = Fin \<bar>a\<bar>"
| "js_abs NaN = NaN"
| "js_abs _ = PosInf"

fun js_sqrt :: "number \<Rightarrow> number" where
  "js_sqrt (Fin a) = (if a < 0 then NaN else Fin (rnd (sqrt a)))"
| "js_sqrt PosInf = PosInf"
| "js_sqrt _ = NaN"

fun js_cos :: "number \<Rightarrow> number" where
  "js_cos (Fin a) = Fin (rnd (cos a))"
| "js_cos _ = NaN"

fun js_sin :: "number \<Rightarrow> number" where
  "js_sin (Fin a) = Fin (rnd (sin a))"
| "js_sin _ = NaN"

definition Math_PI :: number where
  "Math_PI = Fin (rnd pi)"


section \<open>Data model\<close>

text \<open>
  A point is an object \<^verbatim>\<open>{x, y}\<close>.  A \<^verbatim>\<open>Polygon\<close> object has the fields the
  constructor creates: \<^verbatim>\<open>_points\<close> (here \<open>this_points\<close>), \<^verbatim>\<open>numPoints\<close>, the two
  \<^verbatim>\<open>Float64Array\<close> buffers \<^verbatim>\<open>xPoints\<close> and \<^verbatim>\<open>yPoints\<close>, and the pose \<^verbatim>\<open>x\<close>, \<^verbatim>\<open>y\<close>,
  \<^verbatim>\<open>radius\<close>, \<^verbatim>\<open>rotation\<close> (here with the prefix \<open>this_\<close>).  A pose field is
  \<open>None\<close> while it is still \<^verbatim>\<open>undefined\<close>, as it is when the constructor calls
  \<^verbatim>\<open>update\<close> for the first time.
\<close>

record point =
  px :: number
  py :: number

record polygon =
  this_points :: "point list"
  numPoints :: nat
  xPoints :: "number list"
  yPoints :: "number list"
  this_x :: "number option"
  this_y :: "number option"
  this_radius :: "number option"
  this_rotation :: "number option"

datatype error = TypeError

definition js_index :: "'a list \<Rightarrow> int \<Rightarrow> 'a option" where
  \<comment> \<open>\<^verbatim>\<open>xs[k]\<close>: \<open>None\<close> is \<^verbatim>\<open>undefined\<close>, also at index \<open>-1\<close>\<close>
  "js_index xs k = (if 0 \<le> k \<and> k < int (length xs) then Some (xs ! nat k) else None)"

definition to_number :: "number option \<Rightarrow> number" where
  \<comment> \<open>\<^verbatim>\<open>undefined\<close> as an operand of arithmetic\<close>
  "to_number v = (case v of Some a \<Rightarrow> a | None \<Rightarrow> NaN)"

definition seq_field :: "number \<Rightarrow> number option \<Rightarrow> bool" where
  \<comment> \<open>\<^verbatim>\<open>a === this.f\<close>, where the field may still be \<^verbatim>\<open>undefined\<close>\<close>
  "seq_field a v = (case v of Some b \<Rightarrow> js_seq a b | None \<Rightarrow> False)"

section \<open>The Polygon entity\<close>

definition same_pose :: "polygon \<Rightarrow> number \<Rightarrow> number \<Rightarrow> number \<Rightarrow> number \<Rightarrow> bool" where
  "same_pose p x y radius rotation =
     (seq_field x (this_x p) \<and> seq_field y (this_y p) \<and>
      seq_field radius (this_radius p) \<and> seq_field rotation (this_rotation p))"

definition world_x :: "number \<Rightarrow> number \<Rightarrow> number \<Rightarrow> number \<Rightarrow> point \<Rightarrow> number" where
  "world_x x radius c s pt = js_add x (js_mul (js_sub (js_mul (px pt) c) (js_mul (py pt) s)) radius)"

definition world_y :: "number \<Rightarrow> number \<Rightarrow> number \<Rightarrow> number \<Rightarrow> point \<Rightarrow> number" where
  "world_y y radius c s pt = js_add y (js_mul (js_add (js_mul (py pt) c) (js_mul (px pt) s)) radius)"

text \<open>
  The loop of \<^verbatim>\<open>update\<close>.  Reading \<^verbatim>\<open>this._points[i]\<close> past the end gives
  \<^verbatim>\<open>undefined\<close>, whose \<^verbatim>\<open>.x\<close> throws; a store past the end of a \<^verbatim>\<open>Float64Array\<close>
  is ignored, which is what \<open>list_update\<close> does.
\<close>

function update_loop :: "polygon \<Rightarrow> number \<Rightarrow> number \<Rightarrow> number \<Rightarrow> number \<Rightarrow> number \<Rightarrow> nat \<Rightarrow> error + polygon" where
  "update_loop p x y radius c s i =
     (if i < numPoints p then
        (case js_index (this_points p) (int i) of
           None \<Rightarrow> Inl TypeError
         | Some pt \<Rightarrow>
             update_loop
               (p\<lparr>xPoints := (xPoints p)[i := world_x x radius c s pt],
                  yPoints := (yPoints p)[i := world_y y radius c s pt]\<rparr>)
               x y radius c s (i + 1))
      else Inr p)"
  by pat_completeness auto
termination
  by (relation "measure (\<lambda>(p, x, y, radius, c, s, i). numPoints p - i)") auto

text \<open>
  \<^verbatim>\<open>update\<close> returns the object after the call together with the value the call
  returns: \<open>None\<close> for the bare \<^verbatim>\<open>return\<close>, the object itself for \<^verbatim>\<open>return this\<close>.
\<close>

definition update :: "polygon \<Rightarrow> number \<Rightarrow> number \<Rightarrow> number \<Rightarrow> number \<Rightarrow> error + (polygon \<times> polygon option)" where
  "update p x y radius rotation =
     (if same_pose p x y radius rotation then Inr (p, None)
      else
        (case update_loop
                (p\<lparr>this_x := Some x, this_y := Some y,
                   this_radius := Some radius, this_rotation := Some rotation\<rparr>)
                x y radius (js_cos rotation) (js_sin rotation) 0 of
           Inl e \<Rightarrow> Inl e
         | Inr p' \<Rightarrow> Inr (p', Some p')))"

definition Polygon :: "point list \<Rightarrow> number \<Rightarrow> number \<Rightarrow> number \<Rightarrow> number \<Rightarrow> error + polygon" where
  \<comment> \<open>the constructor; the buffers start filled with zeros\<close>
  "Polygon pts x y radius rotation =
     (case update
             \<lparr>this_points = pts, numPoints = length pts,
              xPoints = replicate (length pts) (Fin 0),
              yPoints = replicate (length pts) (Fin 0),
              this_x = None, this_y = None, this_radius = None, this_rotation = None\<rparr>
             x y radius rotation of
        Inl e \<Rightarrow> Inl e
      | Inr (p, _) \<Rightarrow> Inr p)"

definition buffer_read :: "number list \<Rightarrow> nat \<Rightarrow> number" where
  \<comment> \<open>an element of a \<^verbatim>\<open>Float64Array\<close> used as a Number; past the end it is
      \<^verbatim>\<open>undefined\<close>, which arithmetic and comparison turn into NaN\<close>
  "buffer_read xs i = to_number (js_index xs (int i))"

definition points :: "polygon \<Rightarrow> point list" where
  \<comment> \<open>the getter \<^verbatim>\<open>points\<close>\<close>
  "points p = map (\<lambda>i. \<lparr>px = buffer_read (xPoints p) i, py = buffer_read (yPoints p) i\<rparr>)
                  [0..<numPoints p]"

record box =
  width :: number
  height :: number

function border_loop :: "polygon \<Rightarrow> nat \<Rightarrow> number \<times> number \<Rightarrow> number \<times> number" where
  "border_loop p i (w, h) =
     (if i < numPoints p then
        (let x = js_abs (js_sub (buffer_read (xPoints p) i) (to_number (this_x p)));
             y = js_abs (js_sub (buffer_read (yPoints p) i) (to_number (this_y p)))
         in border_loop p (i + 1) (if js_gt x w then x else w, if js_gt y h then y else h))
      else (w, h))"
  by pat_completeness auto
termination
  by (relation "measure (\<lambda>(p, i, wh). numPoints p - i)") auto

definition borderBox :: "polygon \<Rightarrow> box" where
  "borderBox p =
     (case border_loop p 0 (Fin 0, Fin 0) of
        (w, h) \<Rightarrow> \<lparr>width = js_div w (to_number (this_radius p)),
                    height = js_div h (to_number (this_radius p))\<rparr>)"

section \<open>Collision algorithms\<close>

text \<open>
  The static methods take any value with a \<^verbatim>\<open>points\<close> property: a \<^verbatim>\<open>Polygon\<close>, whose
  getter builds the sequence from the buffers, or a plain object holding the
  sequence.
\<close>

datatype polygon_like = Entity polygon | Plain "point list"

fun points_of :: "polygon_like \<Rightarrow> point list" where
  "points_of (Entity p) = points p"
| "points_of (Plain pts) = pts"

subsection \<open>pointIsInPolygon\<close>

definition crosses :: "number \<Rightarrow> number \<Rightarrow> point \<Rightarrow> point \<Rightarrow> bool" where
  \<comment> \<open>the condition of the \<^verbatim>\<open>if\<close>, with \<open>pt_i\<close> the current and \<open>pt_j\<close> the previous vertex;
      \<^verbatim>\<open>&&\<close> evaluates its right operand, and with it the division, only when the left
      one is true\<close>
  "crosses x y pt_i pt_j =
     (let xi = px pt_i; yi = py pt_i; xj = px pt_j; yj = py pt_j
      in if js_gt yi y \<noteq> js_gt yj y
         then js_lt x (js_add (js_div (js_mul (js_sub xj xi) (js_sub y yi)) (js_sub yj yi)) xi)
         else False)"

function pip_loop :: "number \<Rightarrow> number \<Rightarrow> point list \<Rightarrow> nat \<Rightarrow> int \<Rightarrow> bool \<Rightarrow> error + bool" where
  "pip_loop x y pts i j inside =
     (if i < length pts then
        (case (js_index pts (int i), js_index pts j) of
           (Some pt_i, Some pt_j) \<Rightarrow>
             pip_loop x y pts (i + 1) (int i) (if crosses x y pt_i pt_j then \<not> inside else inside)
         | _ \<Rightarrow> Inl TypeError)
      else Inr inside)"
  by pat_completeness auto
termination
  by (relation "measure (\<lambda>(x, y, pts, i, j, inside). length pts - i)") auto

definition pointIsInPolygon :: "number \<Rightarrow> number \<Rightarrow> polygon_like \<Rightarrow> error + bool" where
  "pointIsInPolygon x y poly =
     (let pts = points_of poly in pip_loop x y pts 0 (int (length pts) - 1) False)"

subsection \<open>circleIsInPolygon\<close>

function circle_loop :: "number \<Rightarrow> number \<Rightarrow> number \<Rightarrow> polygon_like \<Rightarrow> nat \<Rightarrow> error + bool" where
  "circle_loop x y radius poly i =
     (if i < 8 then
        (let angle = js_div (js_mul (Fin (real i)) Math_PI) (Fin 4)
         in case pointIsInPolygon (js_add x (js_mul (js_cos angle) radius))
                                  (js_add y (js_mul (js_sin angle) radius)) poly of
              Inl e \<Rightarrow> Inl e
            | Inr True \<Rightarrow> Inr True
            | Inr False \<Rightarrow> circle_loop x y radius poly (i + 1))
      else Inr False)"
  by pat_completeness auto
termination
  by (relation "measure (\<lambda>(x, y, radius, poly, i). 8 - i)") auto

definition circleIsInPolygon :: "number \<Rightarrow> number \<Rightarrow> number \<Rightarrow> polygon_like \<Rightarrow> error + bool" where
  "circleIsInPolygon x y radius poly = circle_loop x y radius poly 0"

subsection \<open>isColliding\<close>

definition project :: "point \<Rightarrow> point \<Rightarrow> number" where
  "project normal pt = js_add (js_mul (px normal) (px pt)) (js_mul (py normal) (py pt))"

fun project_range :: "point \<Rightarrow> point list \<Rightarrow> number \<times> number \<Rightarrow> number \<times> number" where
  \<comment> \<open>one of the two inner loops: the running minimum and maximum\<close>
  "project_range normal [] (mn, mx) = (mn, mx)"
| "project_range normal (pt # pts) (mn, mx) =
     (let projected = project normal pt
      in project_range normal pts
           (if js_lt projected mn then projected else mn,
            if js_gt projected mx then projected else mx))"

definition separated_on :: "point list \<Rightarrow> point list \<Rightarrow> point \<Rightarrow> bool" where
  "separated_on points1 points2 normal =
     (case project_range normal points1 (PosInf, NegInf) of
        (min1, max1) \<Rightarrow>
          (case project_range normal points2 (PosInf, NegInf) of
             (min2, max2) \<Rightarrow> js_lt max1 min2 \<or> js_lt max2 min1))"

definition unit_normal :: "point \<Rightarrow> point \<Rightarrow> point" where
  \<comment> \<open>the edge from \<open>point1\<close> to \<open>point2\<close>, turned by a quarter and normalised\<close>
  "unit_normal point1 point2 =
     (let ex = js_sub (px point2) (px point1);
          ey = js_sub (py point2) (py point1);
          nx = js_neg ey;
          ny = ex;
          len = js_sqrt (js_add (js_mul nx nx) (js_mul ny ny))
      in \<lparr>px = js_div nx len, py = js_div ny len\<rparr>)"

definition sat_edge :: "point list \<Rightarrow> point list \<Rightarrow> nat \<Rightarrow> error + bool" where
  \<comment> \<open>the body of the first loop for edge \<open>i\<close>: \<open>Inr True\<close> when it returns false\<close>
  "sat_edge points1 points2 i =
     (case (js_index points1 (int i), js_index points1 ((int i + 1) mod int (length points1))) of
        (Some point1, Some point2) \<Rightarrow>
          Inr (separated_on points1 points2 (unit_normal point1 point2))
      | _ \<Rightarrow> Inl TypeError)"

text \<open>
  The first loop gives the index of the edge at which it returned, \<open>None\<close> when it
  ran to its end.
\<close>

function sat_loop :: "point list \<Rightarrow> point list \<Rightarrow> nat \<Rightarrow> error + nat option" where
  "sat_loop points1 points2 i =
     (if i < length points1 then
        (case sat_edge points1 points2 i of
           Inl e \<Rightarrow> Inl e
         | Inr True \<Rightarrow> Inr (Some i)
         | Inr False \<Rightarrow> sat_loop points1 points2 (i + 1))
      else Inr None)"
  by pat_completeness auto
termination
  by (relation "measure (\<lambda>(points1, points2, i). length points1 - i)") auto

fun any_inside :: "point list \<Rightarrow> polygon_like \<Rightarrow> error + bool" where
  \<comment> \<open>the second and the third loop\<close>
  "any_inside [] poly = Inr False"
| "any_inside (pt # pts) poly =
     (case pointIsInPolygon (px pt) (py pt) poly of
        Inl e \<Rightarrow> Inl e
      | Inr True \<Rightarrow> Inr True
      | Inr False \<Rightarrow> any_inside pts poly)"

definition isColliding :: "polygon_like \<Rightarrow> polygon_like \<Rightarrow> error + bool" where
  "isColliding polygon1 polygon2 =
     (let points1 = points_of polygon1; points2 = points_of polygon2
      in case sat_loop points1 points2 0 of
           Inl e \<Rightarrow> Inl e
         | Inr (Some i) \<Rightarrow> Inr False
         | Inr None \<Rightarrow>
             (case any_inside points1 polygon2 of
                Inl e \<Rightarrow> Inl e
              | Inr True \<Rightarrow> Inr True
              | Inr False \<Rightarrow>
                  (case any_inside points2 polygon1 of
                     Inl e \<Rightarrow> Inl e
                   | Inr True \<Rightarrow> Inr True
                   | Inr False \<Rightarrow> Inr False)))"


subsection \<open>isColliding, the earlier copy\<close>

text \<open>
  The file holds the class twice.  The first copy of \<^verbatim>\<open>isColliding\<close> takes the next
  vertex as \<^verbatim>\<open>points1[i + 1] || points1[0]\<close>, does not normalise the axis, has no
  containment loops and ends with \<^verbatim>\<open>return true\<close>.
\<close>

definition sat_edge_earlier :: "point list \<Rightarrow> point list \<Rightarrow> nat \<Rightarrow> error + bool" where
  "sat_edge_earlier points1 points2 i =
     (case js_index points1 (int i) of
        None \<Rightarrow> Inl TypeError
      | Some point1 \<Rightarrow>
          (case (case js_index points1 (int i + 1) of
                   Some q \<Rightarrow> Some q
                 | None \<Rightarrow> js_index points1 0) of
             None \<Rightarrow> Inl TypeError
           | Some point2 \<Rightarrow>
               Inr (separated_on points1 points2
                      \<lparr>px = js_sub (py point2) (py point1),
                       py = js_sub (px point1) (px point2)\<rparr>)))"

function sat_loop_earlier :: "point list \<Rightarrow> point list \<Rightarrow> nat \<Rightarrow> error + nat option" where
  "sat_loop_earlier points1 points2 i =
     (if i < length points1 then
        (case sat_edge_earlier points1 points2 i of
           Inl e \<Rightarrow> Inl e
         | Inr True \<Rightarrow> Inr (Some i)
         | Inr False \<Rightarrow> sat_loop_earlier points1 points2 (i + 1))
      else Inr None)"
  by pat_completeness auto
termination
  by (relation "measure (\<lambda>(points1, points2, i). length points1 - i)") auto

definition isColliding_earlier :: "polygon_like \<Rightarrow> polygon_like \<Rightarrow> error + bool" where
  "isColliding_earlier polygon1 polygon2 =
     (case sat_loop_earlier (points_of polygon1) (points_of polygon2) 0 of
        Inl e \<Rightarrow> Inl e
      | Inr (Some i) \<Rightarrow> Inr False
      | Inr None \<Rightarrow> Inr True)"

section \<open>Notions the properties are stated with\<close>

text \<open>
  The invariant of a \<^verbatim>\<open>Polygon\<close> object: the two buffers have the length the
  constructor gave them, which is the number of shape points.
\<close>

definition polygon_inv :: "polygon \<Rightarrow> bool" where
  "polygon_inv p =
     (numPoints p = length (this_points p) \<and>
      length (xPoints p) = numPoints p \<and> length (yPoints p) = numPoints p)"

text \<open>
  Even-odd ray casting as a property of the vertex sequence: every vertex is paired
  with its predecessor, the first with the last, and the flag is toggled once for
  every pair the horizontal ray from \<open>(x, y)\<close> crosses.
\<close>

definition ray_crosses :: "number \<Rightarrow> number \<Rightarrow> point \<times> point \<Rightarrow> bool" where
  "ray_crosses x y e =
     (case e of (cur, prev) \<Rightarrow>
        js_gt (py cur) y \<noteq> js_gt (py prev) y \<and>
        js_lt x (js_add (js_div (js_mul (js_sub (px prev) (px cur)) (js_sub y (py cur)))
                                (js_sub (py prev) (py cur)))
                        (px cur)))"

definition closed_edges :: "point list \<Rightarrow> (point \<times> point) list" where
  "closed_edges pts = (if pts = [] then [] else zip pts (last pts # butlast pts))"

definition even_odd :: "number \<Rightarrow> number \<Rightarrow> point list \<Rightarrow> bool" where
  "even_odd x y pts =
     foldl (\<lambda>inside e. if ray_crosses x y e then \<not> inside else inside) False (closed_edges pts)"

text \<open>
  The deviations \<open>|worldX[i] - x|\<close> and \<open>|worldY[i] - y|\<close> of the vertices as
  \<^verbatim>\<open>borderBox\<close> computes them, and the greatest of a sequence of Numbers: a member
  that is a number and that no member exceeds.
\<close>

definition x_deviations :: "polygon \<Rightarrow> number list" where
  "x_deviations p =
     map (\<lambda>i. js_abs (js_sub (buffer_read (xPoints p) i) (to_number (this_x p)))) [0..<numPoints p]"

definition y_deviations :: "polygon \<Rightarrow> number list" where
  "y_deviations p =
     map (\<lambda>i. js_abs (js_sub (buffer_read (yPoints p) i) (to_number (this_y p)))) [0..<numPoints p]"

definition greatest :: "number \<Rightarrow> number list \<Rightarrow> bool" where
  "greatest m ds = (m \<in> set ds \<and> m \<noteq> NaN \<and> (\<forall>d\<in>set ds. \<not> js_lt m d))"

text \<open>
  The finite binary64 values: a significand of 53 bits, below the overflow threshold,
  and a multiple of the least subnormal.
\<close>

definition binary64 :: "real \<Rightarrow> bool" where
  "binary64 v = (rnd v = v \<and> \<bar>v\<bar> < 2 ^ 1024 \<and> v * 2 ^ 1074 \<in> \<int>)"

text \<open>A corner of the square with local points \<open>(\<plusminus>1, \<plusminus>1)\<close>.\<close>

definition unit_coord :: "number \<Rightarrow> bool" where
  "unit_coord a = (a = Fin 1 \<or> a = Fin (- 1))"

definition unit_corner :: "point \<Rightarrow> bool" where
  "unit_corner pt = (unit_coord (px pt) \<and> unit_coord (py pt))"

section \<open>Example inputs\<close>

definition square :: "point list" where
  "square = [\<lparr>px = Fin (- 1), py = Fin (- 1)\<rparr>, \<lparr>px = Fin 1, py = Fin (- 1)\<rparr>,
             \<lparr>px = Fin 1, py = Fin 1\<rparr>, \<lparr>px = Fin (- 1), py = Fin 1\<rparr>]"


definition rect_wide :: "point list" where
  "rect_wide = [\<lparr>px = Fin (- 3), py = Fin (- 1)\<rparr>, \<lparr>px = Fin 3, py = Fin (- 1)\<rparr>,
                \<lparr>px = Fin 3, py = Fin 1\<rparr>, \<lparr>px = Fin (- 3), py = Fin 1\<rparr>]"

definition rect_tall :: "point list" where
  "rect_tall = [\<lparr>px = Fin (- 1), py = Fin (- 3)\<rparr>, \<lparr>px = Fin 1, py = Fin (- 3)\<rparr>,
                \<lparr>px = Fin 1, py = Fin 3\<rparr>, \<lparr>px = Fin (- 1), py = Fin 3\<rparr>]"

text \<open>The objects \<^verbatim>\<open>new Polygon(square, 0, 0, 10, 0)\<close> and \<^verbatim>\<open>new Polygon(square, 0, 0, 1, 0)\<close>.\<close>

definition big_square :: polygon where
  "big_square =
     \<lparr>this_points = square, numPoints = 4,
      xPoints = [Fin (- 10), Fin 10, Fin 10, Fin (- 10)],
      yPoints = [Fin (- 10), Fin (- 10), Fin 10, Fin 10],
      this_x = Some (Fin 0), this_y = Some (Fin 0), this_radius = Some (Fin 10),
      this_rotation = Some (Fin 0)\<rparr>"

definition small_square :: polygon where
  "small_square =
     \<lparr>this_points = square, numPoints = 4,
      xPoints = [Fin (- 1), Fin 1, Fin 1, Fin (- 1)],
      yPoints = [Fin (- 1), Fin (- 1), Fin 1, Fin 1],
      this_x = Some (Fin 0), this_y = Some (Fin 0), this_radius = Some (Fin 1),
      this_rotation = Some (Fin 0)\<rparr>"

definition moved_square :: polygon where
  \<comment> \<open>\<open>small_square\<close> after \<^verbatim>\<open>update(5, 0, 1, 0)\<close>\<close>
  "moved_square =
     \<lparr>this_points = square, numPoints = 4,
      xPoints = [Fin 4, Fin 6, Fin 6, Fin 4],
      yPoints = [Fin (- 1), Fin (- 1), Fin 1, Fin 1],
      this_x = Some (Fin 5), this_y = Some (Fin 0), this_radius = Some (Fin 1),
      this_rotation = Some (Fin 0)\<rparr>"

definition nan_square :: polygon where
  \<comment> \<open>the object \<^verbatim>\<open>new Polygon(square, NaN, 0, 1, 0)\<close>\<close>
  "nan_square =
     \<lparr>this_points = square, numPoints = 4,
      xPoints = [NaN, NaN, NaN, NaN],
      yPoints = [Fin (- 1), Fin (- 1), Fin 1, Fin 1],
      this_x = Some NaN, this_y = Some (Fin 0), this_radius = Some (Fin 1),
      this_rotation = Some (Fin 0)\<rparr>"

text \<open>
  The recursive equations of the loops are unfolded one step at a time, where a proof
  asks for it.
\<close>

declare update_loop.simps [simp del]
declare border_loop.simps [simp del]
declare pip_loop.simps [simp del]
declare circle_loop.simps [simp del]
declare sat_loop.simps [simp del]
declare sat_loop_earlier.simps [simp del]

section \<open>Rounding\<close>

text \<open>
  Rounding keeps zero and nothing else at zero, leaves an integer of at most 53 bits
  as it is, and commutes with negation; \<open>rnd_eval\<close> computes it for a value whose
  binade is known.
\<close>

lemma rne_of_int: "rne (of_int m) = m"
  by (simp add: rne_def)

lemma rnd_0: "rnd 0 = 0"
  by (simp add: rnd_def)

lemma two_powr_int: "(2::real) powr (of_int k) = 2 powi k"
  by (simp add: powr_real_of_int')

lemma two_powr_int_Suc: "(2::real) powr (of_int k + 1) = 2 powi (k + 1)"
  using two_powr_int [of "k + 1"] by simp

lemma floor_log2_bounds:
  assumes "r \<noteq> 0"
  shows "2 powi \<lfloor>log 2 \<bar>r\<bar>\<rfloor> \<le> \<bar>r\<bar>" and "\<bar>r\<bar> < 2 powi (\<lfloor>log 2 \<bar>r\<bar>\<rfloor> + 1)"
proof -
  have pos: "0 < \<bar>r\<bar>" using assms by simp
  have "2 powr (of_int \<lfloor>log 2 \<bar>r\<bar>\<rfloor>) \<le> \<bar>r\<bar> \<and> \<bar>r\<bar> < 2 powr (of_int \<lfloor>log 2 \<bar>r\<bar>\<rfloor> + 1)"
    using floor_log_eq_powr_iff [OF pos, of 2 "\<lfloor>log 2 \<bar>r\<bar>\<rfloor>"] by simp
  then show "2 powi \<lfloor>log 2 \<bar>r\<bar>\<rfloor> \<le> \<bar>r\<bar>" and "\<bar>r\<bar> < 2 powi (\<lfloor>log 2 \<bar>r\<bar>\<rfloor> + 1)"
    unfolding two_powr_int two_powr_int_Suc by simp_all
qed

lemma floor_log2_eqI:
  assumes "2 powi k \<le> \<bar>r\<bar>" "\<bar>r\<bar> < 2 powi (k + 1)"
  shows "\<lfloor>log 2 \<bar>r\<bar>\<rfloor> = k"
proof -
  have "0 < (2::real) powi k" by simp
  with assms have pos: "0 < \<bar>r\<bar>" by linarith
  show ?thesis
    using assms floor_log_eq_powr_iff [OF pos, of 2 k]
    unfolding two_powr_int two_powr_int_Suc by simp
qed

lemma rne_bounds: "\<lfloor>s\<rfloor> \<le> rne s" "rne s \<le> \<lfloor>s\<rfloor> + 1"
  by (simp_all add: rne_def Let_def)

lemma rne_nonzero:
  assumes "1 \<le> \<bar>s\<bar>"
  shows "rne s \<noteq> 0"
proof (cases "0 \<le> s")
  case True
  with assms have "1 \<le> s" by simp
  then have "1 \<le> \<lfloor>s\<rfloor>" by linarith
  then have "0 < rne s" using rne_bounds(1) [of s] by linarith
  then show ?thesis by simp
next
  case False
  with assms have s: "s \<le> -1" by simp
  define f where "f = \<lfloor>s\<rfloor>"
  have f: "f \<le> -1" unfolding f_def using s by linarith
  show ?thesis
  proof (cases "f = -1")
    case True
    then have "- 1 \<le> s" unfolding f_def by linarith
    with s have "s = -1" by simp
    then show ?thesis using rne_of_int [of "- 1"] by simp
  next
    case False
    with f have "f \<le> -2" by linarith
    then have "rne s < 0" using rne_bounds(2) [of s] unfolding f_def by linarith
    then show ?thesis by simp
  qed
qed

lemma rnd_eq_0_iff: "rnd r = 0 \<longleftrightarrow> r = 0"
proof
  assume z: "rnd r = 0"
  show "r = 0"
  proof (rule ccontr)
    assume nz: "r \<noteq> 0"
    define k where "k = \<lfloor>log 2 \<bar>r\<bar>\<rfloor>"
    have "2 powi k \<le> \<bar>r\<bar>" using floor_log2_bounds(1) [OF nz] by (simp add: k_def)
    then have "2 powi k * 2 powi (52 - k) \<le> \<bar>r\<bar> * 2 powi (52 - k)"
      by (intro mult_right_mono) simp_all
    then have "(2::real) powi 52 \<le> \<bar>r\<bar> * 2 powi (52 - k)"
      by (simp flip: power_int_add)
    moreover have "\<bar>r / 2 powi (k - 52)\<bar> = \<bar>r\<bar> * 2 powi (52 - k)"
      by (simp add: abs_mult power_int_diff field_simps)
    ultimately have "1 \<le> \<bar>r / 2 powi (k - 52)\<bar>" by simp
    then have "rne (r / 2 powi (k - 52)) \<noteq> 0" by (rule rne_nonzero)
    with nz z show False by (simp add: rnd_def k_def Let_def)
  qed
qed (simp add: rnd_0)


lemma rnd_of_int:
  assumes "\<bar>n\<bar> \<le> 2 ^ 53"
  shows "rnd (of_int n) = of_int n"
proof (cases "n = 0")
  case True
  then show ?thesis by (simp add: rnd_0)
next
  case False
  define r :: real where "r = of_int n"
  define k where "k = \<lfloor>log 2 \<bar>r\<bar>\<rfloor>"
  have nz: "r \<noteq> 0" using False by (simp add: r_def)
  have lo: "2 powi k \<le> \<bar>r\<bar>" using floor_log2_bounds(1) [OF nz] by (simp add: k_def)
  have hi: "\<bar>r\<bar> \<le> 2 ^ 53" using assms unfolding r_def
    by (metis of_int_abs of_int_le_iff of_int_numeral of_int_power)
  have "1 \<le> \<bar>n\<bar>" using False by simp
  then have "1 \<le> \<bar>r\<bar>" unfolding r_def
    by (metis of_int_abs of_int_1_le_iff)
  then have k0: "0 \<le> k" unfolding k_def by simp
  have "(2::real) powi k \<le> 2 powi 53" using lo hi by simp
  then have k53: "k \<le> 53"
    by (rule power_int_le_imp_le_exp [rotated]) simp_all
  have rnd_r: "rnd r = of_int (rne (r / 2 powi (k - 52))) * 2 powi (k - 52)"
    using nz by (simp add: rnd_def k_def Let_def)
  show ?thesis
  proof (cases "k \<le> 52")
    case True
    define j where "j = nat (52 - k)"
    have "(2::real) powi (k - 52) = 1 / 2 powi (int j)"
      using True power_int_minus_divide [of "2::real" "int j"] by (simp add: j_def)
    then have "(2::real) powi (k - 52) = 1 / 2 ^ j"
      by simp
    then have "r / 2 powi (k - 52) = of_int (n * 2 ^ j)" by (simp add: r_def)
    then have "rne (r / 2 powi (k - 52)) = n * 2 ^ j" by (simp only: rne_of_int)
    then show ?thesis using rnd_r \<open>(2::real) powi (k - 52) = 1 / 2 ^ j\<close> by (simp add: r_def)
  next
    case False
    with k53 have k: "k = 53" by simp
    have "2 ^ 53 \<le> \<bar>r\<bar>" using lo k by simp
    with hi have "\<bar>r\<bar> = 2 ^ 53" by simp
    then have "r = 2 ^ 53 \<or> r = - (2 ^ 53)" by (simp add: abs_if split: if_splits)
    then show ?thesis
    proof
      assume "r = 2 ^ 53"
      then show ?thesis using rnd_r k rne_of_int [of "2 ^ 52"] by (simp add: r_def)
    next
      assume "r = - (2 ^ 53)"
      then show ?thesis using rnd_r k rne_of_int [of "- (2 ^ 52)"] by (simp add: r_def)
    qed
  qed
qed

lemma rnd_1: "rnd 1 = 1"
  using rnd_of_int [of 1] by simp

lemma rnd_numeral: "numeral k \<le> (9007199254740992::int) \<Longrightarrow> rnd (numeral k) = numeral k"
  using rnd_of_int [of "numeral k"] by simp

lemma rne_minus: "rne (- s) = - rne s"
proof (cases "s \<in> \<int>")
  case True
  then obtain m where "s = of_int m" by (auto elim: Ints_cases)
  then show ?thesis using rne_of_int [of "- m"] rne_of_int [of m] by simp
next
  case False
  have neq0: "s \<noteq> of_int \<lfloor>s\<rfloor>" using False Ints_of_int by metis
  define f where "f = \<lfloor>s\<rfloor>"
  have neq: "s \<noteq> of_int f" using neq0 by (simp add: f_def)
  have "\<lceil>s\<rceil> = f + 1" using neq0 by (simp add: ceiling_altdef f_def)
  then have fl: "\<lfloor>- s\<rfloor> = - f - 1"
    by (simp add: floor_minus)
  have lo: "of_int f \<le> s" "s < of_int f + 1" unfolding f_def by linarith+
  have a: "rne s = (if s - of_int f < 1/2 then f
                    else if 1/2 < s - of_int f then f + 1
                    else if even f then f else f + 1)"
    by (simp add: rne_def Let_def f_def)
  have b: "rne (- s) = (if - s - of_int (- f - 1) < 1/2 then - f - 1
                    else if 1/2 < - s - of_int (- f - 1) then - f - 1 + 1
                    else if even (- f - 1) then - f - 1 else - f - 1 + 1)"
    unfolding rne_def Let_def fl by (rule refl)
  show ?thesis
    unfolding a b using neq lo by auto
qed

lemma rnd_minus: "rnd (- r) = - rnd r"
  by (simp add: rnd_def Let_def rne_minus)

lemma rnd_eval:
  assumes "2 powi k \<le> \<bar>r\<bar>" "\<bar>r\<bar> < 2 powi (k + 1)"
  shows "rnd r = of_int (rne (r / 2 powi (k - 52))) * 2 powi (k - 52)"
proof -
  have "0 < (2::real) powi k" by simp
  with assms(1) have "0 < \<bar>r\<bar>" by linarith
  then have "r \<noteq> 0" by simp
  then show ?thesis using floor_log2_eqI [OF assms] by (simp add: rnd_def Let_def)
qed

text \<open>Some values, for the examples.\<close>

lemma rnd_third: "rnd (1 / 3) = 6004799503160661 / 18014398509481984"
proof -
  have "rne (18014398509481984 / 3) = 6004799503160661"
    by (simp add: rne_def Let_def)
  then show ?thesis
    using rnd_eval [of "- 2" "1 / 3"] by simp
qed

lemma rnd_two_thirds: "rnd (2 / 3) = 6004799503160661 / 9007199254740992"
proof -
  have "rne (18014398509481984 / 3) = 6004799503160661"
    by (simp add: rne_def Let_def)
  then show ?thesis
    using rnd_eval [of "- 1" "2 / 3"] by simp
qed

lemma rnd_below_third: "rnd (6004799503160661 / 18014398509481984) = 6004799503160661 / 18014398509481984"
  using rnd_eval [of "- 2" "6004799503160661 / 18014398509481984"] rne_of_int [of 6004799503160661]
  by simp

lemma rnd_above_third: "rnd (3002399751580331 / 9007199254740992) = 3002399751580331 / 9007199254740992"
  using rnd_eval [of "- 2" "3002399751580331 / 9007199254740992"] rne_of_int [of 6004799503160662]
  by simp

lemma rnd_tie_up: "rnd 9007199254740995 = 9007199254740996"
proof -
  have "rne (9007199254740995 / 2) = 4503599627370498"
    by (simp add: rne_def Let_def)
  then show ?thesis
    using rnd_eval [of 53 9007199254740995] by simp
qed

lemma rnd_tie_down: "rnd 9007199254740993 = 9007199254740992"
proof -
  have "rne (9007199254740993 / 2) = 4503599627370496"
    by (simp add: rne_def Let_def)
  then show ?thesis
    using rnd_eval [of 53 9007199254740993] by simp
qed

lemma sqrt_36: "sqrt 36 = 6"
  by (rule real_sqrt_unique) simp_all

lemma sqrt_400: "sqrt 400 = 20"
  by (rule real_sqrt_unique) simp_all

lemmas rnd_simps = rnd_0 rnd_1 rnd_numeral rnd_minus

lemma binary64_rnd: "binary64 v \<Longrightarrow> rnd v = v"
  by (simp add: binary64_def)

lemma binary64_of_int:
  assumes "\<bar>n\<bar> \<le> 2 ^ 53"
  shows "binary64 (of_int n)"
proof -
  have "\<bar>real_of_int n\<bar> \<le> 2 ^ 53"
    using assms by (metis of_int_abs of_int_le_iff of_int_numeral of_int_power)
  moreover have "(2::real) ^ 53 < 2 ^ 1024"
    by (rule power_strict_increasing) simp_all
  ultimately have "\<bar>real_of_int n\<bar> < 2 ^ 1024" by (rule le_less_trans)
  moreover have "real_of_int n * 2 ^ 1074 \<in> \<int>"
    by (intro Ints_mult Ints_of_int Ints_power Ints_numeral)
  ultimately show ?thesis using rnd_of_int [OF assms] by (simp add: binary64_def)
qed

lemma binary64_numeral:
  "numeral k \<le> (9007199254740992::int) \<Longrightarrow> binary64 (numeral k)"
  using binary64_of_int [of "numeral k"] by simp

lemma binary64_neg_numeral:
  "numeral k \<le> (9007199254740992::int) \<Longrightarrow> binary64 (- numeral k)"
  using binary64_of_int [of "- numeral k"] by simp

lemma binary64_0: "binary64 0"
  using binary64_of_int [of 0] by simp

section \<open>Arithmetic, indexing and buffers\<close>

lemma js_sub_Fin: "js_sub (Fin a) (Fin b) = Fin (rnd (a - b))"
  by (simp add: js_sub_def)

lemma js_sub_zero: "js_sub a b = Fin 0 \<Longrightarrow> a = b"
  by (cases a; cases b) (simp_all add: js_sub_def rnd_eq_0_iff)

lemma js_index_nat: "i < length xs \<Longrightarrow> js_index xs (int i) = Some (xs ! i)"
  by (simp add: js_index_def)

lemma js_index_pred: "0 < i \<Longrightarrow> i \<le> length xs \<Longrightarrow> js_index xs (int i - 1) = Some (xs ! (i - 1))"
  using js_index_nat [of "i - 1" xs] by (simp add: of_nat_diff)


lemma upt_0_4: "[0..<4] = [0, 1, 2, 3::nat]"
  by code_simp

lemma take_Suc_update: "i < length xs \<Longrightarrow> take (Suc i) (xs[i := v]) = take i xs @ [v]"
  by (simp add: take_Suc_conv_app_nth)

lemma buffer_read_Fin: "i < length xs \<Longrightarrow> buffer_read (map Fin xs) i = Fin (xs ! i)"
  by (simp add: buffer_read_def js_index_nat to_number_def)

lemmas eval_simps = rnd_simps js_sub_Fin js_gt_def sqrt_36 sqrt_400 inf_of_sign_def
  unit_normal_def separated_on_def project_def sat_edge_def js_index_def Let_def

section \<open>The loop of update and the constructor\<close>

lemma update_loop_run:
  assumes "polygon_inv p" "i \<le> numPoints p"
  shows "update_loop p x y radius c s i =
           Inr (p\<lparr>xPoints := take i (xPoints p) @ map (world_x x radius c s) (drop i (this_points p)),
                  yPoints := take i (yPoints p) @ map (world_y y radius c s) (drop i (this_points p))\<rparr>)"
  using assms
proof (induction "numPoints p - i" arbitrary: p i)
  case 0
  then show ?case by (simp add: update_loop.simps polygon_inv_def)
next
  case (Suc d)
  then have lt: "i < numPoints p" by simp
  from Suc.prems have inv: "numPoints p = length (this_points p)"
    "length (xPoints p) = numPoints p" "length (yPoints p) = numPoints p"
    by (simp_all add: polygon_inv_def)
  define q where "q = p\<lparr>xPoints := (xPoints p)[i := world_x x radius c s (this_points p ! i)],
                         yPoints := (yPoints p)[i := world_y y radius c s (this_points p ! i)]\<rparr>"
  have step: "update_loop p x y radius c s i = update_loop q x y radius c s (i + 1)"
    using lt inv by (subst update_loop.simps) (simp add: js_index_nat q_def)
  have qinv: "polygon_inv q" using inv by (simp add: polygon_inv_def q_def)
  have "update_loop q x y radius c s (i + 1) =
          Inr (q\<lparr>xPoints := take (i + 1) (xPoints q) @ map (world_x x radius c s) (drop (i + 1) (this_points q)),
                 yPoints := take (i + 1) (yPoints q) @ map (world_y y radius c s) (drop (i + 1) (this_points q))\<rparr>)"
    using Suc.hyps(2) lt qinv by (intro Suc.hyps(1)) (auto simp: q_def)
  moreover have "drop i (this_points p) = this_points p ! i # drop (Suc i) (this_points p)"
    using lt inv by (simp add: Cons_nth_drop_Suc)
  ultimately show ?case
    unfolding step using lt inv by (simp add: q_def take_Suc_update)
qed

lemma seq_field_eq: "seq_field a v \<Longrightarrow> v = Some a"
  by (auto simp: seq_field_def js_seq_def split: option.splits)

lemma seq_field_refl: "a \<noteq> NaN \<Longrightarrow> seq_field a (Some a)"
  by (simp add: seq_field_def js_seq_def)

lemma same_pose_eq:
  "same_pose p x y radius rotation \<Longrightarrow>
     this_x p = Some x \<and> this_y p = Some y \<and> this_radius p = Some radius \<and> this_rotation p = Some rotation"
  by (simp add: same_pose_def seq_field_eq)

lemma update_recompute:
  assumes "polygon_inv p" "\<not> same_pose p x y radius rotation"
  shows "update p x y radius rotation =
     (let p' = p\<lparr>this_x := Some x, this_y := Some y, this_radius := Some radius,
                   this_rotation := Some rotation,
                   xPoints := map (world_x x radius (js_cos rotation) (js_sin rotation)) (this_points p),
                   yPoints := map (world_y y radius (js_cos rotation) (js_sin rotation)) (this_points p)\<rparr>
      in Inr (p', Some p'))"
proof -
  have "polygon_inv (p\<lparr>this_x := Some x, this_y := Some y, this_radius := Some radius,
                   this_rotation := Some rotation\<rparr>)"
    using assms(1) by (simp add: polygon_inv_def)
  from update_loop_run [OF this, of 0] show ?thesis
    using assms(2) by (simp add: update_def Let_def)
qed

lemma update_same_pose:
  "same_pose p x y radius rotation \<Longrightarrow> update p x y radius rotation = Inr (p, None)"
  by (simp add: update_def)

lemma update_twice:
  assumes "polygon_inv p" "x \<noteq> NaN" "y \<noteq> NaN" "radius \<noteq> NaN" "rotation \<noteq> NaN"
  shows "\<exists>p1 r1. update p x y radius rotation = Inr (p1, r1) \<and>
                 update p1 x y radius rotation = Inr (p1, None)"
proof (cases "same_pose p x y radius rotation")
  case True
  then show ?thesis by (simp add: update_same_pose)
next
  case False
  define p1 where "p1 = p\<lparr>this_x := Some x, this_y := Some y, this_radius := Some radius,
                   this_rotation := Some rotation,
                   xPoints := map (world_x x radius (js_cos rotation) (js_sin rotation)) (this_points p),
                   yPoints := map (world_y y radius (js_cos rotation) (js_sin rotation)) (this_points p)\<rparr>"
  have "update p x y radius rotation = Inr (p1, Some p1)"
    using update_recompute [OF assms(1) False] by (simp add: p1_def Let_def)
  moreover have "same_pose p1 x y radius rotation"
    using assms(2-5) by (simp add: same_pose_def seq_field_refl p1_def)
  ultimately show ?thesis by (simp add: update_same_pose)
qed

lemma Polygon_eq:
  "Polygon pts x y radius rotation =
     Inr \<lparr>this_points = pts, numPoints = length pts,
          xPoints = map (world_x x radius (js_cos rotation) (js_sin rotation)) pts,
          yPoints = map (world_y y radius (js_cos rotation) (js_sin rotation)) pts,
          this_x = Some x, this_y = Some y, this_radius = Some radius,
          this_rotation = Some rotation\<rparr>"
proof -
  let ?p0 = "\<lparr>this_points = pts, numPoints = length pts,
              xPoints = replicate (length pts) (Fin 0),
              yPoints = replicate (length pts) (Fin 0),
              this_x = None, this_y = None, this_radius = None, this_rotation = None\<rparr>"
  have inv: "polygon_inv ?p0" by (simp add: polygon_inv_def)
  have np: "\<not> same_pose ?p0 x y radius rotation" by (simp add: same_pose_def seq_field_def)
  show ?thesis
    unfolding Polygon_def update_recompute [OF inv np] by (simp add: Let_def)
qed

lemma Polygon_inv: "Polygon pts x y radius rotation = Inr p \<Longrightarrow> polygon_inv p"
  unfolding Polygon_eq by (auto simp: polygon_inv_def)

lemma update_keeps_inv:
  assumes "polygon_inv p" "update p x y radius rotation = Inr (p', r)"
  shows "polygon_inv p'"
proof (cases "same_pose p x y radius rotation")
  case True
  with assms show ?thesis by (simp add: update_same_pose)
next
  case False
  from update_recompute [OF assms(1) False] assms show ?thesis
    by (auto simp: Let_def polygon_inv_def)
qed

lemma points_zip:
  assumes "length (xPoints p) = numPoints p" "length (yPoints p) = numPoints p"
  shows "points p = map (\<lambda>(a, b). \<lparr>px = a, py = b\<rparr>) (zip (xPoints p) (yPoints p))"
  using assms
  by (intro nth_equalityI) (simp_all add: points_def buffer_read_def js_index_nat to_number_def)

section \<open>The loop of borderBox\<close>

text \<open>
  The loop keeps the greater of the running value and the next deviation.  What it
  leaves is the greatest deviation, whatever the arithmetic that produced the
  deviations: only the comparison and \<^verbatim>\<open>Math.abs\<close> enter the proof.
\<close>

lemma js_lt_trans: "js_lt a b \<Longrightarrow> js_lt b c \<Longrightarrow> js_lt a c"
  by (cases a; cases b; cases c) simp_all

lemma js_lt_total: "a \<noteq> NaN \<Longrightarrow> b \<noteq> NaN \<Longrightarrow> \<not> js_lt a b \<Longrightarrow> \<not> js_lt b a \<Longrightarrow> a = b"
  by (cases a; cases b) simp_all

lemma js_lt_NaN: "\<not> js_lt a NaN" "\<not> js_lt NaN a"
  by (cases a; simp)+

lemma js_abs_not_below_zero: "\<not> js_lt (js_abs v) (Fin 0)"
  by (cases v) simp_all

lemma keep_greater_fold:
  assumes "w \<noteq> NaN"
  shows "fold (\<lambda>d w. if js_gt d w then d else w) ds w \<noteq> NaN \<and>
         (fold (\<lambda>d w. if js_gt d w then d else w) ds w = w \<or>
          fold (\<lambda>d w. if js_gt d w then d else w) ds w \<in> set ds) \<and>
         \<not> js_lt (fold (\<lambda>d w. if js_gt d w then d else w) ds w) w \<and>
         (\<forall>d\<in>set ds. \<not> js_lt (fold (\<lambda>d w. if js_gt d w then d else w) ds w) d)"
  using assms
proof (induction ds arbitrary: w)
  case Nil
  then show ?case by (cases w) simp_all
next
  case (Cons d ds)
  define w' where "w' = (if js_gt d w then d else w)"
  define m where "m = fold (\<lambda>d w. if js_gt d w then d else w) ds w'"
  have w': "w' \<noteq> NaN"
    using Cons.prems js_lt_NaN(1) [of w] by (auto simp: w'_def js_gt_def)
  from Cons.IH [OF w'] have ih: "m \<noteq> NaN" "m = w' \<or> m \<in> set ds" "\<not> js_lt m w'"
    "\<forall>e\<in>set ds. \<not> js_lt m e"
    by (simp_all add: m_def)
  have fold: "fold (\<lambda>d w. if js_gt d w then d else w) (d # ds) w = m"
    by (simp add: m_def w'_def)
  have mw: "\<not> js_lt m w"
  proof (cases "js_lt w d")
    case True
    then have "w' = d" by (simp add: w'_def js_gt_def)
    with ih(3) True show ?thesis using js_lt_trans [of m w d] by auto
  next
    case False
    then show ?thesis using ih(3) by (simp add: w'_def js_gt_def)
  qed
  have md: "\<not> js_lt m d"
  proof (cases "js_lt w d")
    case True
    then show ?thesis using ih(3) by (simp add: w'_def js_gt_def)
  next
    case False
    show ?thesis
    proof
      assume lt: "js_lt m d"
      then have dn: "d \<noteq> NaN" using js_lt_NaN(1) [of m] by auto
      have "js_lt w m \<or> w = m"
        using js_lt_total [OF Cons.prems ih(1)] mw by auto
      then have "js_lt w d" using lt js_lt_trans [of w m d] by auto
      with False show False by simp
    qed
  qed
  have mem: "m = w \<or> m \<in> set (d # ds)"
    using ih(2) by (auto simp: w'_def split: if_splits)
  show ?case unfolding fold using ih(1,4) mw md mem by simp
qed

lemma greatest_fold:
  assumes "\<exists>d\<in>set ds. d \<noteq> NaN" "\<forall>d\<in>set ds. \<not> js_lt d (Fin 0)"
  shows "greatest (fold (\<lambda>d w. if js_gt d w then d else w) ds (Fin 0)) ds"
proof -
  define m where "m = fold (\<lambda>d w. if js_gt d w then d else w) ds (Fin 0)"
  have k: "m \<noteq> NaN" "m = Fin 0 \<or> m \<in> set ds" "\<forall>d\<in>set ds. \<not> js_lt m d"
    using keep_greater_fold [of "Fin 0" ds] by (simp_all add: m_def)
  have "m \<in> set ds"
  proof (cases "m \<in> set ds")
    case False
    with k(2) have m0: "m = Fin 0" by simp
    from assms(1) obtain d where d: "d \<in> set ds" "d \<noteq> NaN" by auto
    have "d = Fin 0"
      using js_lt_total [OF d(2), of "Fin 0"] assms(2) d(1) k(3) m0 by auto
    with d(1) m0 show ?thesis by simp
  qed simp
  with k show ?thesis by (simp add: greatest_def m_def)
qed

lemma border_loop_fold:
  assumes "i \<le> numPoints p"
  shows "border_loop p i (w, h) =
           (fold (\<lambda>d w. if js_gt d w then d else w) (drop i (x_deviations p)) w,
            fold (\<lambda>d w. if js_gt d w then d else w) (drop i (y_deviations p)) h)"
  using assms
proof (induction "numPoints p - i" arbitrary: i w h)
  case 0
  then show ?case by (simp add: border_loop.simps x_deviations_def y_deviations_def)
next
  case (Suc n)
  then have lt: "i < numPoints p" by simp
  have dx: "drop i (x_deviations p) =
      js_abs (js_sub (buffer_read (xPoints p) i) (to_number (this_x p))) # drop (Suc i) (x_deviations p)"
    using lt Cons_nth_drop_Suc [of i "x_deviations p", symmetric] by (simp add: x_deviations_def)
  have dy: "drop i (y_deviations p) =
      js_abs (js_sub (buffer_read (yPoints p) i) (to_number (this_y p))) # drop (Suc i) (y_deviations p)"
    using lt Cons_nth_drop_Suc [of i "y_deviations p", symmetric] by (simp add: y_deviations_def)
  have rec: "border_loop p (Suc i) (w', h') =
           (fold (\<lambda>d w. if js_gt d w then d else w) (drop (Suc i) (x_deviations p)) w',
            fold (\<lambda>d w. if js_gt d w then d else w) (drop (Suc i) (y_deviations p)) h')" for w' h'
    using Suc.hyps(2) lt by (intro Suc.hyps(1)) auto
  show ?case
    using lt unfolding dx dy by (subst border_loop.simps) (simp add: rec Let_def)
qed

lemma deviations_not_below_zero:
  "\<forall>d\<in>set (x_deviations p). \<not> js_lt d (Fin 0)" "\<forall>d\<in>set (y_deviations p). \<not> js_lt d (Fin 0)"
  by (auto simp: x_deviations_def y_deviations_def js_abs_not_below_zero)

lemma borderBox_greatest:
  assumes "\<exists>d\<in>set (x_deviations p). d \<noteq> NaN" "\<exists>d\<in>set (y_deviations p). d \<noteq> NaN"
  shows "\<exists>w h. greatest w (x_deviations p) \<and> greatest h (y_deviations p) \<and>
           borderBox p = \<lparr>width = js_div w (to_number (this_radius p)),
                          height = js_div h (to_number (this_radius p))\<rparr>"
proof -
  have "border_loop p 0 (Fin 0, Fin 0) =
      (fold (\<lambda>d w. if js_gt d w then d else w) (x_deviations p) (Fin 0),
       fold (\<lambda>d w. if js_gt d w then d else w) (y_deviations p) (Fin 0))"
    using border_loop_fold [of 0 p "Fin 0" "Fin 0"] by simp
  then have "borderBox p =
      \<lparr>width = js_div (fold (\<lambda>d w. if js_gt d w then d else w) (x_deviations p) (Fin 0))
                 (to_number (this_radius p)),
       height = js_div (fold (\<lambda>d w. if js_gt d w then d else w) (y_deviations p) (Fin 0))
                  (to_number (this_radius p))\<rparr>"
    by (simp add: borderBox_def)
  moreover have "greatest (fold (\<lambda>d w. if js_gt d w then d else w) (x_deviations p) (Fin 0)) (x_deviations p)"
    using assms(1) deviations_not_below_zero(1) by (rule greatest_fold)
  moreover have "greatest (fold (\<lambda>d w. if js_gt d w then d else w) (y_deviations p) (Fin 0)) (y_deviations p)"
    using assms(2) deviations_not_below_zero(2) by (rule greatest_fold)
  ultimately show ?thesis by blast
qed

text \<open>The same loop over finite coordinates, for the examples.\<close>

lemma border_loop_finite:
  assumes "xPoints p = map Fin xs" "yPoints p = map Fin ys"
    and "this_x p = Some (Fin cx)" "this_y p = Some (Fin cy)"
    and "length xs = numPoints p" "length ys = numPoints p" "i \<le> numPoints p"
  shows "border_loop p i (Fin w, Fin h) =
           (Fin (fold max (map (\<lambda>v. \<bar>rnd (v - cx)\<bar>) (drop i xs)) w),
            Fin (fold max (map (\<lambda>v. \<bar>rnd (v - cy)\<bar>) (drop i ys)) h))"
  using assms(7)
proof (induction "numPoints p - i" arbitrary: i w h)
  case 0
  then show ?case using assms(5,6) by (simp add: border_loop.simps)
next
  case (Suc d)
  then have lt: "i < numPoints p" by simp
  have dx: "drop i xs = xs ! i # drop (Suc i) xs" and dy: "drop i ys = ys ! i # drop (Suc i) ys"
    using lt assms(5,6) by (simp_all add: Cons_nth_drop_Suc)
  have step: "border_loop p i (Fin w, Fin h) =
      border_loop p (i + 1) (Fin (max \<bar>rnd (xs ! i - cx)\<bar> w), Fin (max \<bar>rnd (ys ! i - cy)\<bar> h))"
    using lt assms(1-6)
    by (subst border_loop.simps)
       (simp add: buffer_read_Fin to_number_def js_sub_Fin js_gt_def Let_def max_def)
  show ?case
    unfolding step dx dy using Suc.hyps(2) lt by (subst Suc.hyps(1)) auto
qed

lemma fold_max_Max:
  fixes l :: "real list"
  assumes "l \<noteq> []" "\<forall>v\<in>set l. 0 \<le> v"
  shows "fold max l 0 = Max (set l)"
proof -
  have "fold max l 0 = Max (set (0 # l))" by (simp only: Max.set_eq_fold)
  also have "\<dots> = max 0 (Max (set l))" using assms(1) by simp
  also have "\<dots> = Max (set l)"
  proof -
    from assms(1) obtain v where "v \<in> set l" by (cases l) auto
    then have "0 \<le> v" "v \<le> Max (set l)" using assms(2) by simp_all
    then show ?thesis by simp
  qed
  finally show ?thesis .
qed

lemma borderBox_finite:
  assumes "xPoints p = map Fin xs" "yPoints p = map Fin ys"
    and "this_x p = Some (Fin cx)" "this_y p = Some (Fin cy)" "this_radius p = Some (Fin r)"
    and "length xs = numPoints p" "length ys = numPoints p" "0 < numPoints p"
  shows "borderBox p =
           \<lparr>width = js_div (Fin (Max ((\<lambda>v. \<bar>rnd (v - cx)\<bar>) ` set xs))) (Fin r),
            height = js_div (Fin (Max ((\<lambda>v. \<bar>rnd (v - cy)\<bar>) ` set ys))) (Fin r)\<rparr>"
proof -
  have nx: "map (\<lambda>v. \<bar>rnd (v - cx)\<bar>) xs \<noteq> []" and ny: "map (\<lambda>v. \<bar>rnd (v - cy)\<bar>) ys \<noteq> []"
    using assms(6-8) by auto
  have "border_loop p 0 (Fin 0, Fin 0) =
      (Fin (fold max (map (\<lambda>v. \<bar>rnd (v - cx)\<bar>) xs) 0), Fin (fold max (map (\<lambda>v. \<bar>rnd (v - cy)\<bar>) ys) 0))"
    using border_loop_finite [OF assms(1-4) assms(6,7), of 0 0 0] by simp
  also have "fold max (map (\<lambda>v. \<bar>rnd (v - cx)\<bar>) xs) 0 = Max ((\<lambda>v. \<bar>rnd (v - cx)\<bar>) ` set xs)"
    using nx by (subst fold_max_Max) auto
  also have "fold max (map (\<lambda>v. \<bar>rnd (v - cy)\<bar>) ys) 0 = Max ((\<lambda>v. \<bar>rnd (v - cy)\<bar>) ` set ys)"
    using ny by (subst fold_max_Max) auto
  finally have "border_loop p 0 (Fin 0, Fin 0) =
      (Fin (Max ((\<lambda>v. \<bar>rnd (v - cx)\<bar>) ` set xs)), Fin (Max ((\<lambda>v. \<bar>rnd (v - cy)\<bar>) ` set ys)))" .
  then show ?thesis
    using assms(5) by (simp add: borderBox_def to_number_def)
qed

lemma world_x_corner:
  assumes "unit_corner pt" "rnd R = R" "rnd (cx + R) = cx + R" "rnd (cx - R) = cx - R"
  shows "world_x (Fin cx) (Fin R) (Fin 1) (Fin 0) pt =
           Fin (if px pt = Fin 1 then cx + R else cx - R)"
proof -
  obtain a b where ab: "px pt = Fin a" "py pt = Fin b" "a = 1 \<or> a = - 1" "b = 1 \<or> b = - 1"
    using assms(1) by (auto simp: unit_corner_def unit_coord_def)
  show ?thesis
    using ab assms(2-4)
    by (auto simp: world_x_def js_sub_Fin rnd_simps)
qed

lemma world_y_corner:
  assumes "unit_corner pt" "rnd R = R" "rnd (cy + R) = cy + R" "rnd (cy - R) = cy - R"
  shows "world_y (Fin cy) (Fin R) (Fin 1) (Fin 0) pt =
           Fin (if py pt = Fin 1 then cy + R else cy - R)"
proof -
  obtain a b where ab: "px pt = Fin a" "py pt = Fin b" "a = 1 \<or> a = - 1" "b = 1 \<or> b = - 1"
    using assms(1) by (auto simp: unit_corner_def unit_coord_def)
  show ?thesis
    using ab assms(2-4)
    by (auto simp: world_y_def rnd_simps)
qed

lemma borderBox_unit_square:
  assumes "pts \<noteq> []" "list_all unit_corner pts" "0 < R" "rnd R = R"
    and "rnd (cx + R) = cx + R" "rnd (cx - R) = cx - R"
    and "rnd (cy + R) = cy + R" "rnd (cy - R) = cy - R"
  shows "map_sum id borderBox (Polygon pts (Fin cx) (Fin cy) (Fin R) (Fin 0)) =
           Inr \<lparr>width = Fin 1, height = Fin 1\<rparr>"
proof -
  define xs where "xs = map (\<lambda>pt. if px pt = Fin 1 then cx + R else cx - R) pts"
  define ys where "ys = map (\<lambda>pt. if py pt = Fin 1 then cy + R else cy - R) pts"
  define p where "p = \<lparr>this_points = pts, numPoints = length pts,
          xPoints = map Fin xs, yPoints = map Fin ys,
          this_x = Some (Fin cx), this_y = Some (Fin cy), this_radius = Some (Fin R),
          this_rotation = Some (Fin 0)\<rparr>"
  have corner: "\<And>pt. pt \<in> set pts \<Longrightarrow> unit_corner pt"
    using assms(2) by (simp add: list_all_iff)
  have P: "Polygon pts (Fin cx) (Fin cy) (Fin R) (Fin 0) = Inr p"
    unfolding Polygon_eq p_def xs_def ys_def
    using corner assms(4-8) by (simp add: world_x_corner world_y_corner rnd_simps)
  have dev: "\<bar>rnd R\<bar> = R" using assms(3,4) by simp
  have devx: "(\<lambda>v. \<bar>rnd (v - cx)\<bar>) ` set xs = {R}"
    using assms(1) dev by (cases pts) (auto simp: xs_def rnd_minus image_iff)
  have devy: "(\<lambda>v. \<bar>rnd (v - cy)\<bar>) ` set ys = {R}"
    using assms(1) dev by (cases pts) (auto simp: ys_def rnd_minus image_iff)
  have "borderBox p = \<lparr>width = js_div (Fin (Max ((\<lambda>v. \<bar>rnd (v - cx)\<bar>) ` set xs))) (Fin R),
            height = js_div (Fin (Max ((\<lambda>v. \<bar>rnd (v - cy)\<bar>) ` set ys))) (Fin R)\<rparr>"
    using assms(1) by (intro borderBox_finite) (simp_all add: p_def xs_def ys_def)
  then have "borderBox p = \<lparr>width = Fin 1, height = Fin 1\<rparr>"
    unfolding devx devy using assms(3) by (simp add: rnd_1)
  then show ?thesis by (simp add: P)
qed

lemma negative_radius_box:
  "map_sum id borderBox (Polygon square (Fin 0) (Fin 0) (Fin (- 2)) (Fin 0)) =
     Inr \<lparr>width = Fin (- 1), height = Fin (- 1)\<rparr>"
proof -
  define p where "p = \<lparr>this_points = square, numPoints = 4,
          xPoints = map Fin [2, - 2, - 2, 2], yPoints = map Fin [2, 2, - 2, - 2],
          this_x = Some (Fin 0), this_y = Some (Fin 0), this_radius = Some (Fin (- 2)),
          this_rotation = Some (Fin 0)\<rparr>"
  have P: "Polygon square (Fin 0) (Fin 0) (Fin (- 2)) (Fin 0) = Inr p"
    unfolding Polygon_eq p_def
    by (simp add: square_def world_x_def world_y_def js_sub_Fin rnd_simps)
  have "borderBox p = \<lparr>width = js_div (Fin (Max ((\<lambda>v. \<bar>rnd (v - 0)\<bar>) ` set [2, - 2, - 2, 2]))) (Fin (- 2)),
            height = js_div (Fin (Max ((\<lambda>v. \<bar>rnd (v - 0)\<bar>) ` set [2, 2, - 2, - 2]))) (Fin (- 2))\<rparr>"
    by (intro borderBox_finite) (simp_all add: p_def)
  then have "borderBox p = \<lparr>width = Fin (- 1), height = Fin (- 1)\<rparr>"
    by (simp add: rnd_simps)
  then show ?thesis by (simp add: P)
qed

lemma far_centre_box:
  "map_sum id borderBox (Polygon square (Fin 9007199254740994) (Fin 0) (Fin 1) (Fin 0)) =
     Inr \<lparr>width = Fin 2, height = Fin 1\<rparr>"
proof -
  define p where "p = \<lparr>this_points = square, numPoints = 4,
          xPoints = map Fin [9007199254740992, 9007199254740996, 9007199254740996, 9007199254740992],
          yPoints = map Fin [- 1, - 1, 1, 1],
          this_x = Some (Fin 9007199254740994), this_y = Some (Fin 0), this_radius = Some (Fin 1),
          this_rotation = Some (Fin 0)\<rparr>"
  have P: "Polygon square (Fin 9007199254740994) (Fin 0) (Fin 1) (Fin 0) = Inr p"
    unfolding Polygon_eq p_def
    by (simp add: square_def world_x_def world_y_def js_sub_Fin rnd_simps rnd_tie_up rnd_tie_down)
  have "borderBox p =
      \<lparr>width = js_div (Fin (Max ((\<lambda>v. \<bar>rnd (v - 9007199254740994)\<bar>) `
                  set [9007199254740992, 9007199254740996, 9007199254740996, 9007199254740992]))) (Fin 1),
       height = js_div (Fin (Max ((\<lambda>v. \<bar>rnd (v - 0)\<bar>) ` set [- 1, - 1, 1, 1]))) (Fin 1)\<rparr>"
    by (intro borderBox_finite) (simp_all add: p_def)
  then have "borderBox p = \<lparr>width = Fin 2, height = Fin 1\<rparr>"
    by (simp add: rnd_simps)
  then show ?thesis by (simp add: P)
qed

section \<open>The loop of pointIsInPolygon\<close>

lemma length_closed_edges: "length (closed_edges pts) = length pts"
  by (simp add: closed_edges_def)

lemma nth_closed_edges:
  assumes "i < length pts"
  shows "closed_edges pts ! i = (pts ! i, pts ! (if i = 0 then length pts - 1 else i - 1))"
proof -
  from assms have ne: "pts \<noteq> []" by auto
  show ?thesis
  proof (cases i)
    case 0
    then show ?thesis using ne assms by (simp add: closed_edges_def last_conv_nth)
  next
    case (Suc k)
    then show ?thesis using ne assms by (simp add: closed_edges_def nth_butlast)
  qed
qed

lemma crosses_ray_crosses: "crosses x y a b = ray_crosses x y (a, b)"
  by (simp add: crosses_def ray_crosses_def Let_def)

lemma pip_loop_fold:
  assumes "i \<le> length pts" "j = (if i = 0 then int (length pts) - 1 else int i - 1)"
  shows "pip_loop x y pts i j inside =
           Inr (foldl (\<lambda>inside e. if ray_crosses x y e then \<not> inside else inside) inside
                  (drop i (closed_edges pts)))"
  using assms
proof (induction "length pts - i" arbitrary: i j inside)
  case 0
  then show ?case by (simp add: pip_loop.simps length_closed_edges)
next
  case (Suc d)
  then have lt: "i < length pts" by simp
  have cur: "js_index pts (int i) = Some (pts ! i)" using lt by (rule js_index_nat)
  have prev: "js_index pts j = Some (pts ! (if i = 0 then length pts - 1 else i - 1))"
    using Suc.prems(2) lt js_index_pred [of i pts] js_index_pred [of "length pts" pts]
    by (auto split: if_splits)
  have dr: "drop i (closed_edges pts) = closed_edges pts ! i # drop (Suc i) (closed_edges pts)"
    using lt by (simp add: Cons_nth_drop_Suc length_closed_edges)
  have step: "pip_loop x y pts i j inside =
      pip_loop x y pts (i + 1) (int i)
        (if ray_crosses x y (closed_edges pts ! i) then \<not> inside else inside)"
    using lt by (subst pip_loop.simps) (simp add: cur prev crosses_ray_crosses nth_closed_edges)
  have "pip_loop x y pts (i + 1) (int i)
          (if ray_crosses x y (closed_edges pts ! i) then \<not> inside else inside) =
        Inr (foldl (\<lambda>inside e. if ray_crosses x y e then \<not> inside else inside)
               (if ray_crosses x y (closed_edges pts ! i) then \<not> inside else inside)
               (drop (i + 1) (closed_edges pts)))"
    using Suc.hyps(2) lt by (intro Suc.hyps(1)) auto
  then show ?case unfolding step dr by simp
qed

lemma pointIsInPolygon_even_odd: "pointIsInPolygon x y poly = Inr (even_odd x y (points_of poly))"
  unfolding pointIsInPolygon_def Let_def even_odd_def
  by (subst pip_loop_fold) simp_all

lemma crosses_flat: "py pt_i = py pt_j \<Longrightarrow> \<not> crosses x y pt_i pt_j"
  by (simp add: crosses_def Let_def)

lemmas pip_simps = pointIsInPolygon_even_odd even_odd_def closed_edges_def ray_crosses_def

lemma origin_in_square: "even_odd (Fin 0) (Fin 0) square = True"
  by (simp add: even_odd_def closed_edges_def square_def ray_crosses_def js_gt_def js_sub_def rnd_simps)

lemma far_point_outside_square: "even_odd (Fin 5) (Fin 5) square = False"
  by (simp add: even_odd_def closed_edges_def square_def ray_crosses_def js_gt_def js_sub_def rnd_simps)

section \<open>The loop of circleIsInPolygon\<close>

lemma circle_loop_iff:
  assumes "i \<le> 8"
  shows "circle_loop x y radius poly i =
     Inr (\<exists>k\<in>{i..<8}.
            pointIsInPolygon
              (js_add x (js_mul (js_cos (js_div (js_mul (Fin (real k)) Math_PI) (Fin 4))) radius))
              (js_add y (js_mul (js_sin (js_div (js_mul (Fin (real k)) Math_PI) (Fin 4))) radius))
              poly = Inr True)"
proof -
  define hit where "hit k = even_odd
      (js_add x (js_mul (js_cos (js_div (js_mul (Fin (real k)) Math_PI) (Fin 4))) radius))
      (js_add y (js_mul (js_sin (js_div (js_mul (Fin (real k)) Math_PI) (Fin 4))) radius))
      (points_of poly)" for k
  have pip: "pointIsInPolygon
      (js_add x (js_mul (js_cos (js_div (js_mul (Fin (real k)) Math_PI) (Fin 4))) radius))
      (js_add y (js_mul (js_sin (js_div (js_mul (Fin (real k)) Math_PI) (Fin 4))) radius))
      poly = Inr (hit k)" for k
    by (simp add: hit_def pointIsInPolygon_even_odd)
  have "circle_loop x y radius poly i = Inr (\<exists>k\<in>{i..<8}. hit k)"
    using assms
  proof (induction "8 - i" arbitrary: i)
    case 0
    then show ?case by (simp add: circle_loop.simps)
  next
    case (Suc d)
    then have lt: "i < 8" by simp
    have step: "circle_loop x y radius poly i =
        (if hit i then Inr True else circle_loop x y radius poly (i + 1))"
      using lt by (subst circle_loop.simps) (simp add: Let_def pip)
    have rec: "circle_loop x y radius poly (i + 1) = Inr (\<exists>k\<in>{i + 1..<8}. hit k)"
      using Suc.hyps(2) lt by (intro Suc.hyps(1)) auto
    have "{i..<8} = insert i {i + 1..<8}" using lt by auto
    then have "(\<exists>k\<in>{i..<8}. hit k) = (hit i \<or> (\<exists>k\<in>{i + 1..<8}. hit k))"
      by (simp only: bex_simps)
    then show ?case unfolding step rec by simp
  qed
  then show ?thesis by (simp add: pip)
qed

section \<open>The loops of isColliding\<close>

text \<open>
  An inner loop leaves the least and the greatest projection, where the projections
  are finite: the interval of the polygon on the axis.
\<close>

lemma project_range_step:
  assumes "map (project normal) pts = map Fin vs"
  shows "project_range normal pts (Fin a, Fin b) = (Fin (fold min vs a), Fin (fold max vs b))"
  using assms
proof (induction pts arbitrary: vs a b)
  case Nil
  then show ?case by simp
next
  case (Cons pt pts)
  then obtain v vs' where vs: "vs = v # vs'" "project normal pt = Fin v"
    "map (project normal) pts = map Fin vs'"
    by (cases vs) auto
  have "project_range normal (pt # pts) (Fin a, Fin b) =
        project_range normal pts (Fin (min v a), Fin (max v b))"
    using vs(2) by (simp add: js_gt_def Let_def min_def max_def)
  then show ?case using Cons.IH [OF vs(3)] vs(1) by simp
qed

lemma project_range_interval:
  assumes "map (project normal) pts = map Fin vs" "pts \<noteq> []"
  shows "project_range normal pts (PosInf, NegInf) = (Fin (Min (set vs)), Fin (Max (set vs)))"
proof -
  from assms obtain pt pts' v vs' where s: "pts = pt # pts'" "vs = v # vs'"
    "project normal pt = Fin v" "map (project normal) pts' = map Fin vs'"
    by (cases pts; cases vs) auto
  have "project_range normal pts (PosInf, NegInf) = project_range normal pts' (Fin v, Fin v)"
    using s(1,3) by (simp add: js_gt_def Let_def)
  also have "\<dots> = (Fin (fold min vs' v), Fin (fold max vs' v))"
    using s(4) by (rule project_range_step)
  also have "fold min vs' v = Min (set vs)" using s(2) by (simp only: Min.set_eq_fold)
  also have "fold max vs' v = Max (set vs)" using s(2) by (simp only: Max.set_eq_fold)
  finally show ?thesis .
qed






section \<open>The example inputs, evaluated\<close>




lemma points_small: "points small_square = square"
  by (subst points_zip) (simp_all add: small_square_def square_def)



lemma crossing_no_axis: "sat_loop rect_wide rect_tall 0 = Inr None"
  by (simp add: sat_loop.simps rect_wide_def rect_tall_def eval_simps)

lemma wide_not_in_tall: "any_inside rect_wide (Plain rect_tall) = Inr False"
  by (simp add: rect_wide_def rect_tall_def pip_simps eval_simps)

lemma tall_not_in_wide: "any_inside rect_tall (Plain rect_wide) = Inr False"
  by (simp add: rect_wide_def rect_tall_def pip_simps eval_simps)

lemma crossing_result: "isColliding (Plain rect_wide) (Plain rect_tall) = Inr False"
  by (simp add: isColliding_def crossing_no_axis wide_not_in_tall tall_not_in_wide)

lemma crossing_result_earlier: "isColliding_earlier (Plain rect_wide) (Plain rect_tall) = Inr True"
  by (simp add: isColliding_earlier_def sat_loop_earlier.simps sat_edge_earlier_def
        rect_wide_def rect_tall_def eval_simps)

lemma origin_in_rectangles: "pointIsInPolygon (Fin 0) (Fin 0) (Plain rect_wide) = Inr True"
  "pointIsInPolygon (Fin 0) (Fin 0) (Plain rect_tall) = Inr True"
  by (simp_all add: rect_wide_def rect_tall_def pip_simps eval_simps)

lemma nan_square_built: "Polygon square NaN (Fin 0) (Fin 1) (Fin 0) = Inr nan_square"
  unfolding Polygon_eq
  by (simp add: nan_square_def square_def world_x_def world_y_def js_sub_def rnd_simps)

lemma nan_square_first_update:
  "update small_square NaN (Fin 0) (Fin 1) (Fin 0) = Inr (nan_square, Some nan_square)"
proof -
  have inv: "polygon_inv small_square" by (simp add: polygon_inv_def small_square_def square_def)
  have np: "\<not> same_pose small_square NaN (Fin 0) (Fin 1) (Fin 0)"
    by (simp add: same_pose_def seq_field_def js_seq_def small_square_def)
  show ?thesis
    unfolding update_recompute [OF inv np]
    by (simp add: small_square_def nan_square_def square_def world_x_def world_y_def js_sub_def
          rnd_simps Let_def)
qed

lemma nan_square_update: "update nan_square NaN (Fin 0) (Fin 1) (Fin 0) = Inr (nan_square, Some nan_square)"
proof -
  have inv: "polygon_inv nan_square" by (simp add: polygon_inv_def nan_square_def square_def)
  have np: "\<not> same_pose nan_square NaN (Fin 0) (Fin 1) (Fin 0)"
    by (simp add: same_pose_def seq_field_def js_seq_def nan_square_def)
  show ?thesis
    unfolding update_recompute [OF inv np]
    by (simp add: nan_square_def square_def world_x_def world_y_def js_sub_def rnd_simps Let_def)
qed

lemma x_deviations_big: "x_deviations big_square = [Fin 10, Fin 10, Fin 10, Fin 10]"
  by (simp add: x_deviations_def big_square_def buffer_read_def js_index_def to_number_def
        upt_0_4 js_sub_Fin rnd_simps)

lemma y_deviations_big: "y_deviations big_square = [Fin 10, Fin 10, Fin 10, Fin 10]"
  by (simp add: y_deviations_def big_square_def buffer_read_def js_index_def to_number_def
        upt_0_4 js_sub_Fin rnd_simps)

lemma x_deviations_nan: "x_deviations nan_square = [NaN, NaN, NaN, NaN]"
  by (simp add: x_deviations_def nan_square_def buffer_read_def js_index_def to_number_def
        upt_0_4 js_sub_def)

lemma nan_square_box: "borderBox nan_square = \<lparr>width = Fin 0, height = Fin 1\<rparr>"
proof -
  have y: "y_deviations nan_square = [Fin 1, Fin 1, Fin 1, Fin 1]"
    by (simp add: y_deviations_def nan_square_def buffer_read_def js_index_def to_number_def
        upt_0_4 js_sub_Fin rnd_simps)
  have "border_loop nan_square 0 (Fin 0, Fin 0) = (Fin 0, Fin 1)"
    using border_loop_fold [of 0 nan_square "Fin 0" "Fin 0"]
    by (simp add: x_deviations_nan y js_gt_def)
  then show ?thesis
    by (simp add: borderBox_def nan_square_def to_number_def rnd_simps)
qed

section \<open>The claims\<close>

text \<open>
  The theorems about every \<^verbatim>\<open>Polygon\<close> assume \<open>polygon_inv\<close>, which holds for every
  object the constructor returns and is kept by \<^verbatim>\<open>update\<close> (\<open>Polygon_inv\<close>,
  \<open>update_keeps_inv\<close>).
\<close>

text \<open>
  Claim C1: whenever no edge normal of the first polygon separates the two projection
  intervals and no vertex of either polygon is inside the other, \<^verbatim>\<open>isColliding\<close>
  returns true.  The code does not do this.  For a wide and a tall rectangle that cross
  at the origin the first loop finds no separating axis, neither containment loop
  finds a vertex, and the final \<^verbatim>\<open>return false\<close> is reached, although the origin is
  inside both rectangles by the code's own \<^verbatim>\<open>pointIsInPolygon\<close>.  The earlier copy of
  \<^verbatim>\<open>isColliding\<close> returns true on the same input.
\<close>

theorem isColliding_crossing_rectangles:
  "sat_loop rect_wide rect_tall 0 = Inr None \<and>
   any_inside rect_wide (Plain rect_tall) = Inr False \<and>
   any_inside rect_tall (Plain rect_wide) = Inr False \<and>
   pointIsInPolygon (Fin 0) (Fin 0) (Plain rect_wide) = Inr True \<and>
   pointIsInPolygon (Fin 0) (Fin 0) (Plain rect_tall) = Inr True \<and>
   isColliding (Plain rect_wide) (Plain rect_tall) = Inr False \<and>
   isColliding_earlier (Plain rect_wide) (Plain rect_tall) = Inr True"
  by (simp add: crossing_no_axis wide_not_in_tall tall_not_in_wide origin_in_rectangles
        crossing_result crossing_result_earlier)





text \<open>
  Claim C4: for a Polygon and a pose that differs from the stored one in at least
  one component (the component is not \<^verbatim>\<open>===\<close> to the stored one, which it is not when
  the two are different values), \<^verbatim>\<open>update\<close> stores the pose, sets world vertex \<open>i\<close> to
  \<open>x + (px * cos rotation - py * sin rotation) * radius\<close> and
  \<open>y + (py * cos rotation + px * sin rotation) * radius\<close> for the local point
  \<open>(px, py)\<close> at index \<open>i\<close>, and returns the object.
\<close>

theorem update_new_pose:
  assumes "polygon_inv p"
    and "\<not> seq_field x (this_x p) \<or> \<not> seq_field y (this_y p) \<or>
         \<not> seq_field radius (this_radius p) \<or> \<not> seq_field rotation (this_rotation p)"
  shows "update p x y radius rotation =
     (let p' = p\<lparr>this_x := Some x, this_y := Some y, this_radius := Some radius,
                   this_rotation := Some rotation,
                   xPoints := map (\<lambda>pt. js_add x (js_mul (js_sub (js_mul (px pt) (js_cos rotation))
                                                        (js_mul (py pt) (js_sin rotation))) radius))
                                  (this_points p),
                   yPoints := map (\<lambda>pt. js_add y (js_mul (js_add (js_mul (py pt) (js_cos rotation))
                                                        (js_mul (px pt) (js_sin rotation))) radius))
                                  (this_points p)\<rparr>
      in Inr (p', Some p'))"
proof -
  have "\<not> same_pose p x y radius rotation" using assms(2) by (auto simp: same_pose_def)
  from update_recompute [OF assms(1) this] show ?thesis
    by (simp add: world_x_def [abs_def] world_y_def [abs_def])
qed

theorem update_new_pose_witness:
  "polygon_inv small_square \<and> \<not> seq_field (Fin 5) (this_x small_square) \<and>
   update small_square (Fin 5) (Fin 0) (Fin 1) (Fin 0) = Inr (moved_square, Some moved_square)"
proof -
  have inv: "polygon_inv small_square" by (simp add: polygon_inv_def small_square_def square_def)
  have diff: "\<not> seq_field (Fin 5) (this_x small_square)"
    by (simp add: small_square_def seq_field_def js_seq_def)
  then have "\<not> seq_field (Fin 5) (this_x small_square) \<or>
      \<not> seq_field (Fin 0) (this_y small_square) \<or>
      \<not> seq_field (Fin 1) (this_radius small_square) \<or>
      \<not> seq_field (Fin 0) (this_rotation small_square)"
    by simp
  from update_new_pose [OF inv this] have
    "update small_square (Fin 5) (Fin 0) (Fin 1) (Fin 0) = Inr (moved_square, Some moved_square)"
    by (simp add: small_square_def moved_square_def square_def eval_simps)
  with inv diff show ?thesis by simp
qed

text \<open>
  Claim C5, amended: a call of \<^verbatim>\<open>update\<close> with a pose that is \<^verbatim>\<open>===\<close> to the stored one in
  all four components changes nothing and returns \<^verbatim>\<open>undefined\<close>; hence, for a pose
  none of whose components is NaN, the second of two calls with that pose is such a
  call.  As the claim is written it covers every pose, and it fails for one with a NaN
  component: NaN is not \<^verbatim>\<open>===\<close> to itself, so the second call computes the vertices
  again and returns the object.
\<close>

theorem update_same_pose_noop:
  "(same_pose p x y radius rotation \<longrightarrow> update p x y radius rotation = Inr (p, None)) \<and>
   (polygon_inv p \<and> x \<noteq> NaN \<and> y \<noteq> NaN \<and> radius \<noteq> NaN \<and> rotation \<noteq> NaN \<longrightarrow>
      (\<exists>p1 r1. update p x y radius rotation = Inr (p1, r1) \<and>
               update p1 x y radius rotation = Inr (p1, None)))"
  using update_twice [of p x y radius rotation]
  by (simp add: update_same_pose)

theorem update_same_pose_noop_witness:
  "same_pose moved_square (Fin 5) (Fin 0) (Fin 1) (Fin 0) \<and>
   update moved_square (Fin 5) (Fin 0) (Fin 1) (Fin 0) = Inr (moved_square, None)"
proof -
  have "same_pose moved_square (Fin 5) (Fin 0) (Fin 1) (Fin 0)"
    by (simp add: same_pose_def seq_field_def js_seq_def moved_square_def)
  then show ?thesis
    using update_same_pose_noop [of moved_square "Fin 5" "Fin 0" "Fin 1" "Fin 0"] by simp
qed

text \<open>
  Two calls \<^verbatim>\<open>update(NaN, 0, 1, 0)\<close> on the unit square, and the same call on the object
  that \<^verbatim>\<open>new Polygon(square, NaN, 0, 1, 0)\<close> builds: each call runs the loop and returns
  the object, the second as the first.
\<close>

theorem update_nan_pose_recomputes:
  "update small_square NaN (Fin 0) (Fin 1) (Fin 0) = Inr (nan_square, Some nan_square) \<and>
   update nan_square NaN (Fin 0) (Fin 1) (Fin 0) = Inr (nan_square, Some nan_square) \<and>
   Polygon square NaN (Fin 0) (Fin 1) (Fin 0) = Inr nan_square"
  by (simp add: nan_square_first_update nan_square_built nan_square_update)

text \<open>
  Claim C6, amended: for a Polygon that has on each axis a vertex whose deviation
  \<open>|world[i] - centre|\<close> is not NaN, \<^verbatim>\<open>borderBox\<close> returns as width the greatest
  \<open>|worldX[i] - x|\<close> divided by the radius and as height the greatest
  \<open>|worldY[i] - y|\<close> divided by the radius, the greatest being taken over the
  deviations that are not NaN.  For a shape whose points are corners
  \<open>(\<plusminus>1, \<plusminus>1)\<close>, rotation 0, a positive radius \<open>R\<close> and a centre \<open>(x, y)\<close> for
  which the four sums \<open>x \<plusminus> R\<close>, \<open>y \<plusminus> R\<close> are binary64 values, so that they are
  computed without rounding and without overflow, the box is \<open>{width: 1, height: 1}\<close>.
  As the claim is written it fails in three ways: where every deviation is NaN the
  width is \<open>0 / radius\<close>, which is none of them; a negative radius gives \<open>-1\<close>; and
  at a centre where the sums round the box is not the unit box.
\<close>

theorem borderBox_extent:
  "((\<exists>d\<in>set (x_deviations p). d \<noteq> NaN) \<and> (\<exists>d\<in>set (y_deviations p). d \<noteq> NaN) \<longrightarrow>
      (\<exists>w h. greatest w (x_deviations p) \<and> greatest h (y_deviations p) \<and>
             borderBox p = \<lparr>width = js_div w (to_number (this_radius p)),
                            height = js_div h (to_number (this_radius p))\<rparr>)) \<and>
   (pts \<noteq> [] \<and> list_all unit_corner pts \<and> 0 < R \<and>
    binary64 R \<and> binary64 ox \<and> binary64 oy \<and>
    binary64 (ox + R) \<and> binary64 (ox - R) \<and> binary64 (oy + R) \<and> binary64 (oy - R) \<longrightarrow>
      map_sum id borderBox (Polygon pts (Fin ox) (Fin oy) (Fin R) (Fin 0)) =
        Inr \<lparr>width = Fin 1, height = Fin 1\<rparr>)"
  using borderBox_greatest [of p] borderBox_unit_square [of pts R ox oy]
  by (simp add: binary64_rnd)

theorem borderBox_extent_witness:
  "x_deviations big_square = [Fin 10, Fin 10, Fin 10, Fin 10] \<and>
   y_deviations big_square = [Fin 10, Fin 10, Fin 10, Fin 10] \<and>
   borderBox big_square = \<lparr>width = Fin 1, height = Fin 1\<rparr> \<and>
   binary64 10 \<and> binary64 0 \<and> binary64 (0 + 10) \<and> binary64 (0 - 10) \<and>
   map_sum id borderBox (Polygon square (Fin 0) (Fin 0) (Fin 10) (Fin 0)) =
     Inr \<lparr>width = Fin 1, height = Fin 1\<rparr>"
proof -
  have "\<exists>w h. greatest w (x_deviations big_square) \<and> greatest h (y_deviations big_square) \<and>
      borderBox big_square = \<lparr>width = js_div w (to_number (this_radius big_square)),
                               height = js_div h (to_number (this_radius big_square))\<rparr>"
    using borderBox_extent [of big_square] by (simp add: x_deviations_big y_deviations_big)
  then obtain w h where wh: "greatest w (x_deviations big_square)"
    "greatest h (y_deviations big_square)"
    "borderBox big_square = \<lparr>width = js_div w (to_number (this_radius big_square)),
                               height = js_div h (to_number (this_radius big_square))\<rparr>"
    by blast
  from wh(1,2) have "w = Fin 10" "h = Fin 10"
    by (simp_all add: greatest_def x_deviations_big y_deviations_big)
  with wh(3) have a: "borderBox big_square = \<lparr>width = Fin 1, height = Fin 1\<rparr>"
    by (simp add: big_square_def to_number_def rnd_simps)
  have b: "binary64 10" "binary64 0" "binary64 (0 + 10)" "binary64 (0 - 10)"
    by (simp_all add: binary64_numeral binary64_neg_numeral binary64_0)
  have "list_all unit_corner square"
    by (simp add: square_def unit_corner_def unit_coord_def)
  then have c: "map_sum id borderBox (Polygon square (Fin 0) (Fin 0) (Fin 10) (Fin 0)) =
     Inr \<lparr>width = Fin 1, height = Fin 1\<rparr>"
    using borderBox_extent [of _ square 10 0 0] b
    by (simp add: square_def)
  from a b c show ?thesis by (simp add: x_deviations_big y_deviations_big)
qed

text \<open>
  The unit square at the origin with radius \<open>-2\<close>; with radius 1 at the centre
  \<open>(9007199254740994, 0)\<close>, where \<open>x + 1\<close> rounds to \<open>x + 2\<close> and \<open>x - 1\<close> to \<open>x - 2\<close>;
  and at the centre \<open>(NaN, 0)\<close>, where every \<open>|worldX[i] - x|\<close> is NaN and the width
  is \<open>0\<close>.
\<close>

theorem borderBox_not_unit:
  "map_sum id borderBox (Polygon square (Fin 0) (Fin 0) (Fin (- 2)) (Fin 0)) =
     Inr \<lparr>width = Fin (- 1), height = Fin (- 1)\<rparr> \<and>
   map_sum id borderBox (Polygon square (Fin 9007199254740994) (Fin 0) (Fin 1) (Fin 0)) =
     Inr \<lparr>width = Fin 2, height = Fin 1\<rparr> \<and>
   Polygon square NaN (Fin 0) (Fin 1) (Fin 0) = Inr nan_square \<and>
   x_deviations nan_square = [NaN, NaN, NaN, NaN] \<and>
   borderBox nan_square = \<lparr>width = Fin 0, height = Fin 1\<rparr>"
  by (simp only: negative_radius_box far_centre_box nan_square_built x_deviations_nan nan_square_box simp_thms)

text \<open>
  Claim C7: \<^verbatim>\<open>pointIsInPolygon\<close> returns the even-odd ray-casting result: a flag that
  starts false and is toggled once for every pair of a vertex \<open>i\<close> and its predecessor
  \<open>j\<close> (the first vertex with the last) for which \<open>(yi > y) \<noteq> (yj > y)\<close> and
  \<open>x < (xj - xi) * (y - yi) / (yj - yi) + xi\<close>.  For the square with corners
  \<open>(\<plusminus>1, \<plusminus>1)\<close> the point \<open>(0, 0)\<close> is inside and \<open>(5, 5)\<close> is not.
\<close>

theorem pointIsInPolygon_ray_casting:
  "pointIsInPolygon x y poly = Inr (even_odd x y (points_of poly)) \<and>
   pointIsInPolygon (Fin 0) (Fin 0) (Plain square) = Inr True \<and>
   pointIsInPolygon (Fin 5) (Fin 5) (Plain square) = Inr False"
  by (simp add: pointIsInPolygon_even_odd origin_in_square far_point_outside_square)

theorem pointIsInPolygon_ray_casting_witness:
  "even_odd (Fin 0) (Fin 0) (points small_square) \<and>
   pointIsInPolygon (Fin 0) (Fin 0) (Entity small_square) = Inr True"
proof -
  have "even_odd (Fin 0) (Fin 0) (points small_square)"
    by (simp add: points_small origin_in_square)
  then show ?thesis
    using pointIsInPolygon_ray_casting [of "Fin 0" "Fin 0" "Entity small_square"] by simp
qed

text \<open>
  Claim C8: an edge whose endpoints have the same \<open>y\<close> never toggles the flag, nor
  does any edge for which the left operand \<open>(yi > y) \<noteq> (yj > y)\<close> is false; where
  the left operand is true, which is where the division is evaluated, the divisor
  \<open>yj - yi\<close> is not zero; and \<^verbatim>\<open>pointIsInPolygon\<close> returns a boolean on every input,
  with no read of an \<^verbatim>\<open>undefined\<close> vertex.
\<close>

theorem pointIsInPolygon_total:
  "(py pt_i = py pt_j \<longrightarrow> \<not> crosses x y pt_i pt_j) \<and>
   (js_gt (py pt_i) y = js_gt (py pt_j) y \<longrightarrow> \<not> crosses x y pt_i pt_j) \<and>
   (js_gt (py pt_i) y \<noteq> js_gt (py pt_j) y \<longrightarrow> js_sub (py pt_j) (py pt_i) \<noteq> Fin 0) \<and>
   (\<exists>inside. pointIsInPolygon x y poly = Inr inside)"
  using js_sub_zero [of "py pt_j" "py pt_i"]
  by (auto simp: crosses_flat crosses_def pointIsInPolygon_even_odd)

theorem pointIsInPolygon_total_witness:
  "\<not> crosses (Fin 0) (Fin 1) \<lparr>px = Fin 0, py = Fin 1\<rparr> \<lparr>px = Fin 2, py = Fin 1\<rparr> \<and>
   js_gt (Fin 3) (Fin 1) \<noteq> js_gt (Fin 0) (Fin 1) \<and>
   js_sub (Fin 0) (Fin 3) \<noteq> Fin 0 \<and>
   pointIsInPolygon (Fin 0) (Fin 1) (Plain []) = Inr False"
proof -
  have a: "\<not> crosses (Fin 0) (Fin 1) \<lparr>px = Fin 0, py = Fin 1\<rparr> \<lparr>px = Fin 2, py = Fin 1\<rparr>"
    using pointIsInPolygon_total [of "\<lparr>px = Fin 0, py = Fin 1\<rparr>" "\<lparr>px = Fin 2, py = Fin 1\<rparr>"
        "Fin 0" "Fin 1" "Plain []"]
    by simp
  have g: "js_gt (Fin 3) (Fin 1) \<noteq> js_gt (Fin 0) (Fin 1)" by (simp add: js_gt_def)
  then have b: "js_sub (Fin 0) (Fin 3) \<noteq> Fin 0"
    using pointIsInPolygon_total [of "\<lparr>px = Fin 1, py = Fin 3\<rparr>" "\<lparr>px = Fin 0, py = Fin 0\<rparr>"
        "Fin 0" "Fin 1" "Plain []"]
    by simp
  have c: "pointIsInPolygon (Fin 0) (Fin 1) (Plain []) = Inr False"
    by (simp add: pip_simps)
  from a g b c show ?thesis by simp
qed

text \<open>
  Claim C9: \<^verbatim>\<open>circleIsInPolygon\<close> returns true exactly when for some \<open>i\<close> from 0 to 7
  the point \<open>(x + cos (i * \<pi> / 4) * r, y + sin (i * \<pi> / 4) * r)\<close> is inside the
  polygon by \<^verbatim>\<open>pointIsInPolygon\<close>.
\<close>

theorem circleIsInPolygon_samples:
  "circleIsInPolygon x y radius poly =
     Inr (\<exists>i\<in>{0..<8}.
            pointIsInPolygon
              (js_add x (js_mul (js_cos (js_div (js_mul (Fin (real i)) Math_PI) (Fin 4))) radius))
              (js_add y (js_mul (js_sin (js_div (js_mul (Fin (real i)) Math_PI) (Fin 4))) radius))
              poly = Inr True)"
  unfolding circleIsInPolygon_def by (rule circle_loop_iff) simp

theorem circleIsInPolygon_samples_witness:
  "circleIsInPolygon (Fin 0) (Fin 0) (Fin 0) (Plain square) = Inr True"
proof -
  have "pointIsInPolygon
          (js_add (Fin 0) (js_mul (js_cos (js_div (js_mul (Fin (real (0::nat))) Math_PI) (Fin 4))) (Fin 0)))
          (js_add (Fin 0) (js_mul (js_sin (js_div (js_mul (Fin (real (0::nat))) Math_PI) (Fin 4))) (Fin 0)))
          (Plain square) = Inr True"
    by (simp add: Math_PI_def rnd_simps pointIsInPolygon_even_odd origin_in_square)
  then have "\<exists>i\<in>{0..<8}. pointIsInPolygon
          (js_add (Fin 0) (js_mul (js_cos (js_div (js_mul (Fin (real i)) Math_PI) (Fin 4))) (Fin 0)))
          (js_add (Fin 0) (js_mul (js_sin (js_div (js_mul (Fin (real i)) Math_PI) (Fin 4))) (Fin 0)))
          (Plain square) = Inr True"
    by (intro bexI [of _ 0]) simp_all
  then show ?thesis
    using circleIsInPolygon_samples [of "Fin 0" "Fin 0" "Fin 0" "Plain square"] by simp
qed

text \<open>
  Claim C10, amended: for a polygon with no point or one point \<^verbatim>\<open>pointIsInPolygon\<close>
  returns false; for one with two points \<open>a\<close> and \<open>b\<close> it returns true exactly when
  the crossing test with \<open>a\<close> as current and \<open>b\<close> as previous vertex and the test
  with \<open>b\<close> as current and \<open>a\<close> as previous vertex differ.  As the claim is written,
  false for every polygon of two points, it fails: the two tests compute the abscissa
  of the crossing by different roundings, and for a query point between the two
  results the flag is toggled once.
\<close>

theorem pointIsInPolygon_few_points:
  "(length (points_of poly) < 2 \<longrightarrow> pointIsInPolygon x y poly = Inr False) \<and>
   (points_of poly = [a, b] \<longrightarrow>
      pointIsInPolygon x y poly = Inr (crosses x y a b \<noteq> crosses x y b a))"
proof (intro conjI impI)
  assume "length (points_of poly) < 2"
  then consider "points_of poly = []" | c where "points_of poly = [c]"
    by (cases "points_of poly"; cases "tl (points_of poly)") auto
  then show "pointIsInPolygon x y poly = Inr False"
    by cases (simp_all add: pip_simps)
next
  assume "points_of poly = [a, b]"
  then show "pointIsInPolygon x y poly = Inr (crosses x y a b \<noteq> crosses x y b a)"
    by (auto simp: pip_simps crosses_ray_crosses)
qed

theorem pointIsInPolygon_few_points_witness:
  "pointIsInPolygon (Fin 0) (Fin 0) (Plain [\<lparr>px = Fin 1, py = Fin 1\<rparr>]) = Inr False \<and>
   pointIsInPolygon (Fin 0) (Fin 1) (Plain [\<lparr>px = Fin 0, py = Fin 0\<rparr>, \<lparr>px = Fin 1, py = Fin 3\<rparr>]) =
     Inr False"
proof -
  have a: "pointIsInPolygon (Fin 0) (Fin 0) (Plain [\<lparr>px = Fin 1, py = Fin 1\<rparr>]) = Inr False"
    using pointIsInPolygon_few_points [of "Plain [\<lparr>px = Fin 1, py = Fin 1\<rparr>]" "Fin 0" "Fin 0"] by simp
  have "crosses (Fin 0) (Fin 1) \<lparr>px = Fin 0, py = Fin 0\<rparr> \<lparr>px = Fin 1, py = Fin 3\<rparr> =
        crosses (Fin 0) (Fin 1) \<lparr>px = Fin 1, py = Fin 3\<rparr> \<lparr>px = Fin 0, py = Fin 0\<rparr>"
    by (simp add: crosses_def eval_simps rnd_third rnd_two_thirds rnd_below_third rnd_above_third)
  then have b: "pointIsInPolygon (Fin 0) (Fin 1)
      (Plain [\<lparr>px = Fin 0, py = Fin 0\<rparr>, \<lparr>px = Fin 1, py = Fin 3\<rparr>]) = Inr False"
    using pointIsInPolygon_few_points [of "Plain [\<lparr>px = Fin 0, py = Fin 0\<rparr>, \<lparr>px = Fin 1, py = Fin 3\<rparr>]"
        "Fin 0" "Fin 1" "\<lparr>px = Fin 0, py = Fin 0\<rparr>" "\<lparr>px = Fin 1, py = Fin 3\<rparr>"]
    by simp
  from a b show ?thesis by simp
qed

text \<open>
  The segment from \<open>(0, 0)\<close> to \<open>(1, 3)\<close> and the query point
  \<open>(0.3333333333333333, 1)\<close>, whose \<open>x\<close> is the binary64 value nearest to a third,
  \<open>6004799503160661 / 2\<^sup>5\<^sup>4\<close>.  With \<open>(0, 0)\<close> as the current vertex the crossing is
  computed as \<open>1 * 1 / 3 + 0\<close>, which rounds to \<open>x\<close> itself; with \<open>(1, 3)\<close> as the
  current vertex it is computed as \<open>(-1 * -2) / -3 + 1\<close>, which rounds to the next
  value above \<open>x\<close>.  The flag is toggled by the second test only.
\<close>

theorem pointIsInPolygon_two_points_inside:
  "pointIsInPolygon (Fin (6004799503160661 / 18014398509481984)) (Fin 1)
     (Plain [\<lparr>px = Fin 0, py = Fin 0\<rparr>, \<lparr>px = Fin 1, py = Fin 3\<rparr>]) = Inr True"
  by (simp add: pip_simps eval_simps rnd_third rnd_two_thirds rnd_below_third rnd_above_third)

end
